theory Spec2Isabelle
  imports Main "HOL-Library.Word"
begin

section \<open>Data model of the graph\<close>

text \<open>
  The pass \<^verbatim>\<open>ConvertFullyConnectedToFullyConnectedCompressed\<close> of
  \<^verbatim>\<open>convert_fc_to_compressed.cpp\<close> works on the computation graph of the host
  framework. A dimension size is a \<^verbatim>\<open>size_t\<close> (64 bits, products wrap around), an
  \<^verbatim>\<open>ov::Shape\<close> is a list of them, and a partial shape may have a dynamic rank
  (\<open>None\<close>) or dynamic dimensions.
\<close>

type_synonym size_t = "64 word"

type_synonym shape = "size_t list"

datatype dimension = Static size_t | Dynamic

type_synonym partial_shape = "dimension list option"

datatype element_type = dynamic_type | u8 | i8 | i32 | i64 | f16 | f32

text \<open>
  The payload of a constant: a handle to a data buffer of the host (the copy constructor
  \<^verbatim>\<open>Constant(other, new_shape)\<close> shares it), or the \<^verbatim>\<open>int32_t\<close> vector a constant is
  built from in line 111.
\<close>

datatype buffer = Host_data nat | I32_data "32 word list"

type_synonym node_id = nat

text \<open>
  The operator class of a node, with the attributes the pass reads: a constant's data and
  the \<^verbatim>\<open>get_output_type()\<close> attribute of the two fully-connected operators.
\<close>

datatype op_type =
    Constant buffer
  | Convert
  | Subtract
  | Multiply
  | Reshape
  | Transpose
  | FullyConnected element_type
  | FullyConnectedCompressed element_type
  | Parameter

record node =
  type_info :: op_type
  inputs :: "node_id list"
  out_element_type :: element_type
  out_partial_shape :: partial_shape
  friendly_name :: string
  rt_info :: "string list"

text \<open>
  The graph is an arena of nodes; a node's identifier is its index, and the slot of a
  removed node is \<open>None\<close>. Every node has one output, so an input edge is the identifier
  of the producing node.
\<close>

type_synonym graph = "node option list"

definition node_at :: "graph \<Rightarrow> node_id \<Rightarrow> node option" where
  "node_at g i = (if i < length g then g ! i else None)"

definition add_node :: "graph \<Rightarrow> node \<Rightarrow> node_id \<times> graph" where
  "add_node g n = (length g, g @ [Some n])"

text \<open>
  Every \<^verbatim>\<open>OPENVINO_ASSERT\<close>, every throwing accessor and every undefined access of the
  source is an error value. \<open>Dangling_node\<close> stands for an identifier that names no node
  of the arena; the shared pointers of the source cannot dangle.
\<close>

datatype error =
    Assertion_failed
  | Out_of_range
  | Dynamic_shape
  | Dangling_node
  | Out_of_bounds

definition bind_result :: "error + 'a \<Rightarrow> ('a \<Rightarrow> error + 'b) \<Rightarrow> error + 'b" where
  "bind_result r f = (case r of Inl e \<Rightarrow> Inl e | Inr x \<Rightarrow> f x)"

definition get_node :: "graph \<Rightarrow> node_id \<Rightarrow> error + node" where
  "get_node g i = (case node_at g i of None \<Rightarrow> Inl Dangling_node | Some n \<Rightarrow> Inr n)"

subsection \<open>Shapes\<close>

fun to_shape :: "dimension list \<Rightarrow> shape option" where
  "to_shape [] = Some []"
| "to_shape (Static d # ds) = map_option ((#) d) (to_shape ds)"
| "to_shape (Dynamic # ds) = None"

text \<open>\<^verbatim>\<open>get_shape()\<close> throws when the shape is not static.\<close>

definition get_shape :: "node \<Rightarrow> error + shape" where
  "get_shape n =
     (case out_partial_shape n of
        None \<Rightarrow> Inl Dynamic_shape
      | Some ds \<Rightarrow> (case to_shape ds of None \<Rightarrow> Inl Dynamic_shape | Some s \<Rightarrow> Inr s))"

text \<open>\<^verbatim>\<open>PartialShape::size()\<close>: the number of dimensions, 0 for a dynamic rank.\<close>

definition partial_shape_size :: "partial_shape \<Rightarrow> nat" where
  "partial_shape_size ps = (case ps of None \<Rightarrow> 0 | Some ds \<Rightarrow> length ds)"

text \<open>\<^verbatim>\<open>ov::shape_size\<close>: the product of the dimensions, in \<^verbatim>\<open>size_t\<close>.\<close>

fun shape_size :: "shape \<Rightarrow> size_t" where
  "shape_size [] = 1"
| "shape_size (d # ds) = d * shape_size ds"

text \<open>\<^verbatim>\<open>std::count_if\<close> over a range.\<close>

fun count_if :: "('a \<Rightarrow> bool) \<Rightarrow> 'a list \<Rightarrow> nat" where
  "count_if p [] = 0"
| "count_if p (x # xs) = (if p x then Suc (count_if p xs) else count_if p xs)"

text \<open>Line 76: the flag \<^verbatim>\<open>grouped\<close> of a scale shape.\<close>

definition grouped_of :: "shape \<Rightarrow> bool" where
  "grouped_of scale_shape = (1 < count_if (\<lambda>d. 1 < d) scale_shape)"

subsection \<open>Shape canonicalizer (lines 78 to 90)\<close>

text \<open>
  Modelled from the spec: the copy constructor \<^verbatim>\<open>Constant(const Constant&, const Shape&)\<close> of
  the framework is not among the sources; the spec has it construct a constant with a new
  shape over the existing data. The new node keeps the operator (with its data buffer)
  and the element type, has no inputs, and starts with no name and no runtime info.
\<close>

definition constant_with_shape :: "node \<Rightarrow> shape \<Rightarrow> node" where
  "constant_with_shape other new_shape =
     \<lparr>type_info = type_info other, inputs = [],
      out_element_type = out_element_type other,
      out_partial_shape = Some (map Static new_shape),
      friendly_name = [], rt_info = []\<rparr>"

text \<open>\<^verbatim>\<open>std::dynamic_pointer_cast<ov::op::v0::Constant>(node) != nullptr\<close>.\<close>

definition is_Constant :: "node \<Rightarrow> bool" where
  "is_Constant n = (case type_info n of Constant b \<Rightarrow> True | _ \<Rightarrow> False)"

text \<open>
  The lambda \<^verbatim>\<open>reshape_const_to_2d\<close>: the captured flags come first, then the graph the
  node lives in; the result is the identifier of the rank-2 constant and the graph, which
  has one more node when a constant was created. A constant's shape is static in the
  framework, so the \<open>Dynamic_shape\<close> branch of \<open>get_shape\<close> is not taken for the graphs
  it builds.
\<close>

definition reshape_const_to_2d ::
  "bool \<Rightarrow> bool \<Rightarrow> graph \<Rightarrow> node_id \<Rightarrow> error + (node_id \<times> graph)" where
  "reshape_const_to_2d has_transpose grouped g nid =
     bind_result (get_node g nid) (\<lambda>constant.
       if \<not> is_Constant constant then Inl Assertion_failed
       else bind_result (get_shape constant) (\<lambda>current_shape.
         if length current_shape = 2 then Inr (nid, g)
         else if length current_shape \<noteq> 3 then Inl Assertion_failed
         else
           let new_shape =
                 (if has_transpose \<or> \<not> grouped
                  then [current_shape ! 0 * current_shape ! 1, current_shape ! 2]
                  else [current_shape ! 0, current_shape ! 1 * current_shape ! 2])
           in Inr (add_node g (constant_with_shape constant new_shape))))"

section \<open>The pass\<close>

subsection \<open>Pattern nodes and the matcher's state\<close>

text \<open>
  The pattern nodes built in lines 41 to 61, by the names of the source's variables. A
  \<^verbatim>\<open>Matcher\<close> hands the callback its \<^verbatim>\<open>get_pattern_value_map()\<close> and its
  \<^verbatim>\<open>get_matched_nodes()\<close>.
\<close>

datatype pattern =
    weights_m
  | convert_m
  | sub_const_m
  | subtract_m
  | mul_const_m
  | mul_with_sub_m
  | mul_no_sub_m
  | reshape_const_m
  | reshape_m
  | transpose_const_m
  | transpose_m
  | data_m
  | fully_connected_m

record matcher =
  pattern_value_map :: "pattern \<rightharpoonup> node_id"
  matched_nodes :: "node_id list"

text \<open>\<^verbatim>\<open>pattern_map.at(key)\<close> throws \<^verbatim>\<open>std::out_of_range\<close> for an unbound key.\<close>

definition map_at :: "(pattern \<rightharpoonup> node_id) \<Rightarrow> pattern \<Rightarrow> error + node_id" where
  "map_at pattern_map key = (case pattern_map key of None \<Rightarrow> Inl Out_of_range | Some v \<Rightarrow> Inr v)"

subsection \<open>The host framework\<close>

text \<open>
  What the pass takes from its surroundings: the veto predicate
  \<^verbatim>\<open>transformation_callback\<close>, and the type and shape inference the framework runs when a
  node is constructed (\<^verbatim>\<open>validate_and_infer_types\<close>, from the operator and the inputs).
  Neither is among the sources, so both are parameters.
\<close>

record host =
  transformation_callback :: "node \<Rightarrow> bool"
  validate_and_infer_types :: "graph \<Rightarrow> op_type \<Rightarrow> node_id list \<Rightarrow> element_type \<times> partial_shape"

text \<open>
  Modelled from the spec: the node constructors and \<^verbatim>\<open>clone_with_new_inputs\<close> of the
  framework are not among the sources; the spec has them clone a node with substituted
  inputs and construct the fused operator from its operands. A constructed node has the
  given operator and inputs, the inferred output type and shape, no name and no runtime
  info.
\<close>

definition make_node :: "host \<Rightarrow> graph \<Rightarrow> op_type \<Rightarrow> node_id list \<Rightarrow> node" where
  "make_node h g t args =
     \<lparr>type_info = t, inputs = args,
      out_element_type = fst (validate_and_infer_types h g t args),
      out_partial_shape = snd (validate_and_infer_types h g t args),
      friendly_name = [], rt_info = []\<rparr>"

definition clone_with_new_inputs :: "host \<Rightarrow> graph \<Rightarrow> node \<Rightarrow> node_id list \<Rightarrow> node" where
  "clone_with_new_inputs h g n args = make_node h g (type_info n) args"

text \<open>
  Modelled from the spec: the constructor \<^verbatim>\<open>Constant(element::i32, Shape{n}, values)\<close> of the
  framework, not among the sources: a one-dimensional constant over the given values.
\<close>

definition i32_constant :: "32 word list \<Rightarrow> node" where
  "i32_constant values =
     \<lparr>type_info = Constant (I32_data values), inputs = [],
      out_element_type = i32,
      out_partial_shape = Some [Static (of_nat (length values))],
      friendly_name = [], rt_info = []\<rparr>"

text \<open>
  Modelled from the spec: \<^verbatim>\<open>ov::copy_runtime_info\<close> and \<^verbatim>\<open>ov::replace_node\<close> are not among
  the sources. The first merges the runtime info of the source nodes onto the
  destination; the second rewires every consumer of the target to the replacement and
  removes the target, in one step.
\<close>

definition copy_runtime_info :: "graph \<Rightarrow> node_id list \<Rightarrow> node \<Rightarrow> node" where
  "copy_runtime_info g sources dest =
     dest\<lparr>rt_info := concat (map (\<lambda>i. case node_at g i of None \<Rightarrow> [] | Some n \<Rightarrow> rt_info n) sources)\<rparr>"

definition rewire :: "node_id \<Rightarrow> node_id \<Rightarrow> node \<Rightarrow> node" where
  "rewire target replacement n =
     n\<lparr>inputs := map (\<lambda>i. if i = target then replacement else i) (inputs n)\<rparr>"

definition replace_node :: "graph \<Rightarrow> node_id \<Rightarrow> node_id \<Rightarrow> graph" where
  "replace_node g target replacement =
     (map (map_option (rewire target replacement)) g)[target := None]"

text \<open>\<^verbatim>\<open>std::dynamic_pointer_cast<op::FullyConnected>\<close>, giving the output type attribute.\<close>

definition as_FullyConnected :: "node \<Rightarrow> element_type option" where
  "as_FullyConnected n = (case type_info n of FullyConnected t \<Rightarrow> Some t | _ \<Rightarrow> None)"

definition get_input_node :: "node \<Rightarrow> nat \<Rightarrow> error + node_id" where
  "get_input_node n k = (if k < length (inputs n) then Inr (inputs n ! k) else Inl Out_of_range)"

subsection \<open>Transpose propagator (lines 104 to 118)\<close>

text \<open>
  Lines 108 to 110: \<^verbatim>\<open>new_order\<close> is \<open>0, 1, \<dots>, r - 1\<close> with its last two elements swapped.
  For \<open>r < 2\<close> the source indexes outside the vector.
\<close>

definition swapped_order :: "nat \<Rightarrow> error + 32 word list" where
  "swapped_order r =
     (let new_order = map of_nat [0..<r]
      in if r < 2 then Inl Out_of_bounds
         else Inr (new_order[r - 1 := new_order ! (r - 2), r - 2 := new_order ! (r - 1)]))"

text \<open>
  Lines 107 to 112: the permutation constant the transposes are built with. The one the
  match captured is kept when its element count is the rank of the canonicalized weights;
  otherwise a new constant holds \<^verbatim>\<open>new_order\<close>.
\<close>

definition effective_transpose_const :: "graph \<Rightarrow> node_id \<Rightarrow> node_id \<Rightarrow> error + (node_id \<times> graph)" where
  "effective_transpose_const g transpose_const_id fc_input_b =
     bind_result (get_node g transpose_const_id) (\<lambda>transpose_const.
     bind_result (get_shape transpose_const) (\<lambda>transpose_const_shape.
     bind_result (get_node g fc_input_b) (\<lambda>weights.
     let r = partial_shape_size (out_partial_shape weights) in
     if shape_size transpose_const_shape \<noteq> of_nat r
     then bind_result (swapped_order r) (\<lambda>new_order. Inr (add_node g (i32_constant new_order)))
     else Inr (transpose_const_id, g))))"

text \<open>
  The body of \<^verbatim>\<open>if (has_transpose)\<close>: it gives the new values of \<^verbatim>\<open>fc_input_b\<close>,
  \<^verbatim>\<open>fc_input_scale\<close> and \<^verbatim>\<open>fc_input_zp\<close>, and the graph with the nodes it created.
\<close>

definition transpose_operands ::
  "host \<Rightarrow> (pattern \<rightharpoonup> node_id) \<Rightarrow> bool \<Rightarrow> node_id \<Rightarrow> node_id \<Rightarrow> node_id option \<Rightarrow> graph
    \<Rightarrow> error + ((node_id \<times> node_id \<times> node_id option) \<times> graph)" where
  "transpose_operands h pattern_map with_zero_point fc_input_b scale optional_zero_point g =
     bind_result (map_at pattern_map transpose_m) (\<lambda>transpose_id.
     bind_result (get_node g transpose_id) (\<lambda>transpose.
     bind_result (map_at pattern_map transpose_const_m) (\<lambda>transpose_const_id.
     bind_result (effective_transpose_const g transpose_const_id fc_input_b)
       (\<lambda>(transpose_const, g1).
     let (fc_input_b', g2) =
           add_node g1 (clone_with_new_inputs h g1 transpose [fc_input_b, transpose_const]);
         (fc_input_scale, g3) =
           add_node g2 (clone_with_new_inputs h g2 transpose [scale, transpose_const])
     in if with_zero_point
        then (case optional_zero_point of
                None \<Rightarrow> Inl Out_of_bounds
              | Some zero_point \<Rightarrow>
                  let (fc_input_zp, g4) =
                        add_node g3 (clone_with_new_inputs h g3 transpose [zero_point, transpose_const])
                  in Inr ((fc_input_b', fc_input_scale, Some fc_input_zp), g4))
        else Inr ((fc_input_b', fc_input_scale, optional_zero_point), g3)))))"

subsection \<open>The callback (lines 63 to 138)\<close>

text \<open>
  Lines 93 to 101: the scale, the zero point when the subtract branch was matched, and the
  weights are canonicalized, in this order. The graph is threaded through the three calls.
\<close>

definition canonicalize_operands ::
  "(pattern \<rightharpoonup> node_id) \<Rightarrow> bool \<Rightarrow> bool \<Rightarrow> bool \<Rightarrow> graph
    \<Rightarrow> error + ((node_id \<times> node_id option \<times> node_id) \<times> graph)" where
  "canonicalize_operands pattern_map has_transpose grouped with_zero_point g =
     bind_result (map_at pattern_map mul_const_m) (\<lambda>mul_const_id.
     bind_result (reshape_const_to_2d has_transpose grouped g mul_const_id) (\<lambda>(scale, g1).
     bind_result
       (if with_zero_point
        then bind_result (map_at pattern_map sub_const_m) (\<lambda>sub_const_id.
             bind_result (reshape_const_to_2d has_transpose grouped g1 sub_const_id)
               (\<lambda>(zero_point, g2). Inr (Some zero_point, g2)))
        else Inr (None, g1))
       (\<lambda>(optional_zero_point, g2).
     bind_result (map_at pattern_map weights_m) (\<lambda>weights_id.
     bind_result (reshape_const_to_2d has_transpose grouped g2 weights_id) (\<lambda>(fc_input_b, g3).
     Inr ((scale, optional_zero_point, fc_input_b), g3))))))"

text \<open>
  Lines 120 to 136: the fused node is constructed with three or four operands, takes the
  name of the original node and the runtime info of the matched nodes, and replaces the
  original node.
\<close>

definition fused_node ::
  "host \<Rightarrow> graph \<Rightarrow> node_id list \<Rightarrow> node \<Rightarrow> element_type \<Rightarrow> node_id list \<Rightarrow> node" where
  "fused_node h g matched fc output_type operands =
     (let new_fc = make_node h g (FullyConnectedCompressed output_type) operands;
          new_fc = new_fc\<lparr>friendly_name := friendly_name fc\<rparr>
      in copy_runtime_info g matched new_fc)"

definition build_fused ::
  "host \<Rightarrow> node_id list \<Rightarrow> node_id \<Rightarrow> node \<Rightarrow> element_type \<Rightarrow> bool
    \<Rightarrow> node_id \<Rightarrow> node_id \<Rightarrow> node_id \<Rightarrow> node_id option \<Rightarrow> graph \<Rightarrow> error + graph" where
  "build_fused h matched fc_id fc output_type with_zero_point
       fc_input_a fc_input_b fc_input_scale fc_input_zp g =
     bind_result
       (if with_zero_point
        then (case fc_input_zp of
                None \<Rightarrow> Inl Out_of_bounds
              | Some zp \<Rightarrow> Inr [fc_input_a, fc_input_b, fc_input_scale, zp])
        else Inr [fc_input_a, fc_input_b, fc_input_scale])
       (\<lambda>operands.
          let (new_fc_id, g1) = add_node g (fused_node h g matched fc output_type operands)
          in Inr (replace_node g1 fc_id new_fc_id))"

text \<open>
  The callback. The result is its return value and the graph after it; an exception is an
  error value, and leaves no graph.
\<close>

definition callback :: "host \<Rightarrow> matcher \<Rightarrow> graph \<Rightarrow> error + (bool \<times> graph)" where
  "callback h m g =
     (let pattern_map = pattern_value_map m in
      if pattern_map fully_connected_m = None then Inl Assertion_failed
      else if pattern_map mul_const_m = None then Inl Assertion_failed
      else if pattern_map weights_m = None then Inl Assertion_failed
      else if pattern_map convert_m = None then Inl Assertion_failed
      else
        bind_result (map_at pattern_map fully_connected_m) (\<lambda>fc_id.
        bind_result (get_node g fc_id) (\<lambda>fc.
        case as_FullyConnected fc of
          None \<Rightarrow> Inr (False, g)
        | Some output_type \<Rightarrow>
            if transformation_callback h fc then Inr (False, g)
            else
              let has_transpose = (pattern_map transpose_m \<noteq> None) in
              bind_result (map_at pattern_map mul_const_m) (\<lambda>mul_const_id.
              bind_result (get_node g mul_const_id) (\<lambda>mul_const.
              bind_result (get_shape mul_const) (\<lambda>scale_shape.
              let grouped = grouped_of scale_shape in
              bind_result (get_input_node fc 0) (\<lambda>fc_input_a.
              let with_zero_point = (pattern_map subtract_m \<noteq> None) in
              bind_result (canonicalize_operands pattern_map has_transpose grouped with_zero_point g)
                (\<lambda>((scale, optional_zero_point, weights), g3).
              bind_result
                (if has_transpose
                 then transpose_operands h pattern_map with_zero_point weights scale optional_zero_point g3
                 else Inr ((weights, scale, optional_zero_point), g3))
                (\<lambda>((fc_input_b, fc_input_scale, fc_input_zp), g4).
              bind_result
                (build_fused h (matched_nodes m) fc_id fc output_type with_zero_point
                   fc_input_a fc_input_b fc_input_scale fc_input_zp g4)
                (\<lambda>g5. Inr (True, g5)))))))))))"

subsection \<open>The pattern (lines 29 to 61)\<close>

text \<open>
  \<^verbatim>\<open>output.get_target_inputs().size()\<close>: the number of input ports, over all nodes of the
  graph, that read the output of node \<open>v\<close>.
\<close>

definition target_inputs_size :: "graph \<Rightarrow> node_id \<Rightarrow> nat" where
  "target_inputs_size g v =
     sum_list (map (\<lambda>slot. case slot of None \<Rightarrow> 0 | Some n \<Rightarrow> count_list (inputs n) v) g)"

text \<open>The two predicates the source defines, lines 29 to 39.\<close>

definition compressed_constant :: "graph \<Rightarrow> node_id \<Rightarrow> bool" where
  "compressed_constant g v =
     (case node_at g v of
        None \<Rightarrow> False
      | Some output \<Rightarrow>
          (out_element_type output = u8 \<or> out_element_type output = i8) \<and>
          target_inputs_size g v = 1)"

text \<open>
  \<^verbatim>\<open>get_input_partial_shape(0)\<close> is the partial shape of the output that feeds input 0; a
  node without that input, which the source does not meet, fails the predicate here.
\<close>

definition reshape_3d_to_2d :: "graph \<Rightarrow> node_id \<Rightarrow> bool" where
  "reshape_3d_to_2d g v =
     (case node_at g v of
        None \<Rightarrow> False
      | Some output \<Rightarrow>
          (case inputs output of
             [] \<Rightarrow> False
           | a # _ \<Rightarrow>
               (case node_at g a of
                  None \<Rightarrow> False
                | Some producer \<Rightarrow>
                    let in_ps = out_partial_shape producer;
                        out_ps = out_partial_shape output
                    in in_ps \<noteq> None \<and> out_ps \<noteq> None \<and>
                       partial_shape_size in_ps = 3 \<and> partial_shape_size out_ps = 2)))"

text \<open>
  Modelled from the spec: the pattern-matching engine (\<^verbatim>\<open>wrap_type\<close>, \<^verbatim>\<open>pattern::op::Or\<close>,
  \<^verbatim>\<open>any_input\<close>, \<^verbatim>\<open>consumers_count\<close>, \<^verbatim>\<open>Matcher\<close>) is not among the sources. By the spec a
  typed pattern node matches a graph node of its operator class that satisfies its
  predicate and whose inputs match the pattern's inputs, one by one and in order; an
  alternation matches when one of its sub-patterns does, tried in order; a match
  produces the binding map, with one binding and one matched node per pattern node on the
  path taken. A failed alternative leaves no binding behind.
\<close>

type_synonym pattern_node = "node_id \<Rightarrow> matcher \<Rightarrow> matcher option"

definition bind_pattern :: "pattern \<Rightarrow> node_id \<Rightarrow> matcher \<Rightarrow> matcher" where
  "bind_pattern label v m =
     m\<lparr>pattern_value_map := (pattern_value_map m)(label \<mapsto> v),
       matched_nodes := matched_nodes m @ [v]\<rparr>"

fun match_arguments :: "pattern_node list \<Rightarrow> node_id list \<Rightarrow> matcher \<Rightarrow> matcher option" where
  "match_arguments [] [] m = Some m"
| "match_arguments (p # ps) (a # args) m =
     (case p a m of None \<Rightarrow> None | Some m' \<Rightarrow> match_arguments ps args m')"
| "match_arguments _ _ m = None"

definition wrap_type ::
  "graph \<Rightarrow> (op_type \<Rightarrow> bool) \<Rightarrow> pattern \<Rightarrow> pattern_node list \<Rightarrow> (node_id \<Rightarrow> bool) \<Rightarrow> pattern_node" where
  "wrap_type g wrapped label pattern_inputs predicate v m =
     (case node_at g v of
        None \<Rightarrow> None
      | Some n \<Rightarrow>
          if wrapped (type_info n) \<and> predicate v
          then (case pattern_inputs of
                  [] \<Rightarrow> Some (bind_pattern label v m)
                | _ \<Rightarrow> match_arguments pattern_inputs (inputs n) (bind_pattern label v m))
          else None)"

fun or_pattern :: "pattern_node list \<Rightarrow> pattern_node" where
  "or_pattern [] v m = None"
| "or_pattern (p # ps) v m = (case p v m of Some m' \<Rightarrow> Some m' | None \<Rightarrow> or_pattern ps v m)"

definition any_input :: "graph \<Rightarrow> pattern \<Rightarrow> pattern_node" where
  "any_input g label v m = (case node_at g v of None \<Rightarrow> None | Some n \<Rightarrow> Some (bind_pattern label v m))"

definition consumers_count :: "graph \<Rightarrow> nat \<Rightarrow> node_id \<Rightarrow> bool" where
  "consumers_count g k v = (target_inputs_size g v = k)"

definition no_predicate :: "node_id \<Rightarrow> bool" where
  "no_predicate v = True"

text \<open>The operator classes the pattern wraps.\<close>

definition Constant_op :: "op_type \<Rightarrow> bool" where
  "Constant_op t = (case t of Constant b \<Rightarrow> True | _ \<Rightarrow> False)"

definition FullyConnected_op :: "op_type \<Rightarrow> bool" where
  "FullyConnected_op t = (case t of FullyConnected et \<Rightarrow> True | _ \<Rightarrow> False)"

text \<open>The pattern nodes, one definition per variable of lines 41 to 61.\<close>

definition match_weights_m :: "graph \<Rightarrow> pattern_node" where
  "match_weights_m g = wrap_type g Constant_op weights_m [] (compressed_constant g)"

definition match_convert_m :: "graph \<Rightarrow> pattern_node" where
  "match_convert_m g = wrap_type g (\<lambda>t. t = Convert) convert_m [match_weights_m g] no_predicate"

definition match_sub_const_m :: "graph \<Rightarrow> pattern_node" where
  "match_sub_const_m g = wrap_type g Constant_op sub_const_m [] (consumers_count g 1)"

definition match_subtract_m :: "graph \<Rightarrow> pattern_node" where
  "match_subtract_m g =
     wrap_type g (\<lambda>t. t = Subtract) subtract_m [match_convert_m g, match_sub_const_m g] no_predicate"

definition match_mul_const_m :: "graph \<Rightarrow> pattern_node" where
  "match_mul_const_m g = wrap_type g Constant_op mul_const_m [] (consumers_count g 1)"

definition match_mul_with_sub_m :: "graph \<Rightarrow> pattern_node" where
  "match_mul_with_sub_m g =
     wrap_type g (\<lambda>t. t = Multiply) mul_with_sub_m [match_subtract_m g, match_mul_const_m g] no_predicate"

definition match_mul_no_sub_m :: "graph \<Rightarrow> pattern_node" where
  "match_mul_no_sub_m g =
     wrap_type g (\<lambda>t. t = Multiply) mul_no_sub_m [match_convert_m g, match_mul_const_m g] no_predicate"

definition match_mul_m :: "graph \<Rightarrow> pattern_node" where
  "match_mul_m g = or_pattern [match_mul_with_sub_m g, match_mul_no_sub_m g]"

definition match_reshape_const_m :: "graph \<Rightarrow> pattern_node" where
  "match_reshape_const_m g = wrap_type g Constant_op reshape_const_m [] no_predicate"

definition match_reshape_m :: "graph \<Rightarrow> pattern_node" where
  "match_reshape_m g =
     wrap_type g (\<lambda>t. t = Reshape) reshape_m [match_mul_m g, match_reshape_const_m g]
       (reshape_3d_to_2d g)"

definition match_transpose_input :: "graph \<Rightarrow> pattern_node" where
  "match_transpose_input g = or_pattern [match_reshape_m g, match_mul_m g]"

definition match_transpose_const_m :: "graph \<Rightarrow> pattern_node" where
  "match_transpose_const_m g = wrap_type g Constant_op transpose_const_m [] no_predicate"

definition match_transpose_m :: "graph \<Rightarrow> pattern_node" where
  "match_transpose_m g =
     wrap_type g (\<lambda>t. t = Transpose) transpose_m
       [match_transpose_input g, match_transpose_const_m g] no_predicate"

definition match_data_m :: "graph \<Rightarrow> pattern_node" where
  "match_data_m g = any_input g data_m"

definition match_weights_input_m :: "graph \<Rightarrow> pattern_node" where
  "match_weights_input_m g = or_pattern [match_reshape_m g, match_transpose_m g, match_mul_m g]"

definition match_fully_connected_m :: "graph \<Rightarrow> pattern_node" where
  "match_fully_connected_m g =
     wrap_type g FullyConnected_op fully_connected_m
       [match_data_m g, match_weights_input_m g] no_predicate"

text \<open>Line 140: a matcher rooted at \<^verbatim>\<open>fully_connected_m\<close>, run at one node of the graph.\<close>

definition empty_matcher :: matcher where
  "empty_matcher = \<lparr>pattern_value_map = Map.empty, matched_nodes = []\<rparr>"

definition run_matcher :: "graph \<Rightarrow> node_id \<Rightarrow> matcher option" where
  "run_matcher g root = match_fully_connected_m g root empty_matcher"

text \<open>One attempt of the pass at a node: a structural match, then the callback.\<close>

definition run_pass_at :: "host \<Rightarrow> graph \<Rightarrow> node_id \<Rightarrow> error + (bool \<times> graph)" where
  "run_pass_at h g root =
     (case run_matcher g root of
        None \<Rightarrow> Inr (False, g)
      | Some m \<Rightarrow> callback h m g)"

section \<open>Vocabulary of the properties\<close>

text \<open>A node the canonicalizer accepts: a constant of rank 2 or 3.\<close>

definition canonicalizable :: "graph \<Rightarrow> node_id \<Rightarrow> bool" where
  "canonicalizable g v =
     (case node_at g v of
        None \<Rightarrow> False
      | Some n \<Rightarrow>
          is_Constant n \<and>
          (case get_shape n of Inl e \<Rightarrow> False | Inr s \<Rightarrow> length s = 2 \<or> length s = 3))"

definition is_fused :: "node \<Rightarrow> bool" where
  "is_fused n = (case type_info n of FullyConnectedCompressed t \<Rightarrow> True | _ \<Rightarrow> False)"

text \<open>
  The graph \<open>g'\<close> is \<open>g\<close> with nodes appended, none of them a fused node and none with
  runtime info: what the canonicalizer and the transpose propagator do to the graph.
\<close>

definition plain_node :: "node option \<Rightarrow> bool" where
  "plain_node x = (case x of None \<Rightarrow> False | Some n \<Rightarrow> rt_info n = [] \<and> \<not> is_fused n)"

definition grows_to :: "graph \<Rightarrow> graph \<Rightarrow> bool" where
  "grows_to g g' = (\<exists>ns. g' = g @ ns \<and> list_all plain_node ns)"

text \<open>
  What the matcher's state says about the constants it has bound: the weights are a
  constant that satisfies \<open>compressed_constant\<close>, the scale and the zero point have one
  consumer each. A pattern node \<open>preserves\<close> a property of the state when every match
  it makes from a state with the property ends in a state with it.
\<close>

definition single_consumer_bindings :: "graph \<Rightarrow> matcher \<Rightarrow> bool" where
  "single_consumer_bindings g m =
     ((case pattern_value_map m weights_m of
         None \<Rightarrow> True
       | Some w \<Rightarrow> compressed_constant g w \<and>
           (case node_at g w of None \<Rightarrow> False | Some n \<Rightarrow> is_Constant n)) \<and>
      (case pattern_value_map m mul_const_m of
         None \<Rightarrow> True
       | Some s \<Rightarrow> target_inputs_size g s = 1) \<and>
      (case pattern_value_map m sub_const_m of
         None \<Rightarrow> True
       | Some z \<Rightarrow> target_inputs_size g z = 1))"

definition preserves :: "(matcher \<Rightarrow> bool) \<Rightarrow> pattern_node \<Rightarrow> bool" where
  "preserves P p = (\<forall>v m m'. P m \<longrightarrow> p v m = Some m' \<longrightarrow> P m')"

section \<open>Example graphs\<close>

definition example_node ::
  "op_type \<Rightarrow> node_id list \<Rightarrow> element_type \<Rightarrow> shape \<Rightarrow> string \<Rightarrow> node" where
  "example_node t args et s name =
     \<lparr>type_info = t, inputs = args, out_element_type = et,
      out_partial_shape = Some (map Static s), friendly_name = name, rt_info = [name]\<rparr>"

text \<open>
  Weights, convert, multiply by a scale, fully connected: the pattern without zero point,
  reshape and transpose. Node 6 consumes the fully-connected node.
\<close>

definition dequantized_graph :: "shape \<Rightarrow> shape \<Rightarrow> graph" where
  "dequantized_graph weights_shape scale_shape =
     [Some (example_node Parameter [] f16 [1, 32] ''data''),
      Some (example_node (Constant (Host_data 0)) [] u8 weights_shape ''weights''),
      Some (example_node Convert [1] f16 weights_shape ''convert''),
      Some (example_node (Constant (Host_data 1)) [] f16 scale_shape ''scale''),
      Some (example_node Multiply [2, 3] f16 weights_shape ''multiply''),
      Some (example_node (FullyConnected f32) [0, 4] f32 [1, 2] ''fc''),
      Some (example_node Convert [5] f16 [1, 2] ''result'')]"

definition dequantized_match :: matcher where
  "dequantized_match =
     \<lparr>pattern_value_map =
        [fully_connected_m \<mapsto> 5, data_m \<mapsto> 0, mul_no_sub_m \<mapsto> 4, convert_m \<mapsto> 2,
         weights_m \<mapsto> 1, mul_const_m \<mapsto> 3],
      matched_nodes = [5, 0, 4, 2, 1, 3]\<rparr>"

text \<open>The same with a transpose of the rank-3 dequantized weights before the fully-connected node.\<close>

definition transposed_graph :: graph where
  "transposed_graph =
     [Some (example_node Parameter [] f16 [1, 32] ''data''),
      Some (example_node (Constant (Host_data 0)) [] u8 [2, 4, 8] ''weights''),
      Some (example_node Convert [1] f16 [2, 4, 8] ''convert''),
      Some (example_node (Constant (Host_data 1)) [] f16 [2, 4, 8] ''scale''),
      Some (example_node Multiply [2, 3] f16 [2, 4, 8] ''multiply''),
      Some (example_node (Constant (Host_data 2)) [] i32 [3] ''order''),
      Some (example_node Transpose [4, 5] f16 [2, 8, 4] ''transpose''),
      Some (example_node (FullyConnected f32) [0, 6] f32 [1, 2] ''fc''),
      Some (example_node Convert [7] f16 [1, 2] ''result'')]"

definition transposed_match :: matcher where
  "transposed_match =
     \<lparr>pattern_value_map =
        [fully_connected_m \<mapsto> 7, data_m \<mapsto> 0, transpose_m \<mapsto> 6, mul_no_sub_m \<mapsto> 4,
         convert_m \<mapsto> 2, weights_m \<mapsto> 1, mul_const_m \<mapsto> 3, transpose_const_m \<mapsto> 5],
      matched_nodes = [7, 0, 6, 4, 2, 1, 3, 5]\<rparr>"

text \<open>The full pattern: zero point, reshape from rank 3 to rank 2, transpose.\<close>

definition zero_point_graph :: graph where
  "zero_point_graph =
     [Some (example_node Parameter [] f16 [1, 32] ''data''),
      Some (example_node (Constant (Host_data 0)) [] u8 [2, 4, 8] ''weights''),
      Some (example_node Convert [1] f16 [2, 4, 8] ''convert''),
      Some (example_node (Constant (Host_data 2)) [] u8 [2, 4, 1] ''zero_point''),
      Some (example_node Subtract [2, 3] f16 [2, 4, 8] ''subtract''),
      Some (example_node (Constant (Host_data 1)) [] f16 [2, 4, 1] ''scale''),
      Some (example_node Multiply [4, 5] f16 [2, 4, 8] ''multiply''),
      Some (example_node (Constant (Host_data 3)) [] i64 [2] ''target_shape''),
      Some (example_node Reshape [6, 7] f16 [8, 8] ''reshape''),
      Some (example_node (Constant (Host_data 4)) [] i64 [2] ''order''),
      Some (example_node Transpose [8, 9] f16 [8, 8] ''transpose''),
      Some (example_node (FullyConnected f32) [0, 10] f32 [1, 2] ''fc''),
      Some (example_node Convert [11] f16 [1, 2] ''result'')]"

definition zero_point_match :: matcher where
  "zero_point_match =
     \<lparr>pattern_value_map =
        [fully_connected_m \<mapsto> 11, data_m \<mapsto> 0, transpose_m \<mapsto> 10, reshape_m \<mapsto> 8,
         mul_with_sub_m \<mapsto> 6, subtract_m \<mapsto> 4, convert_m \<mapsto> 2, weights_m \<mapsto> 1,
         sub_const_m \<mapsto> 3, mul_const_m \<mapsto> 5, reshape_const_m \<mapsto> 7, transpose_const_m \<mapsto> 9],
      matched_nodes = [11, 0, 10, 8, 6, 4, 2, 1, 3, 5, 7, 9]\<rparr>"

text \<open>The first graph with a second consumer of the scale constant.\<close>

definition shared_scale_graph :: graph where
  "shared_scale_graph =
     dequantized_graph [2, 4, 8] [2, 4, 1] @ [Some (example_node Convert [3] f32 [2, 4, 1] ''other'')]"

text \<open>A host that vetoes nothing, and one that vetoes every node.\<close>

definition allowing_host :: host where
  "allowing_host =
     \<lparr>transformation_callback = (\<lambda>n. False),
      validate_and_infer_types = (\<lambda>g t args. (f16, None))\<rparr>"

definition vetoing_host :: host where
  "vetoing_host =
     \<lparr>transformation_callback = (\<lambda>n. True),
      validate_and_infer_types = (\<lambda>g t args. (f16, None))\<rparr>"

section \<open>Properties\<close>

lemma to_shape_map_Static: "to_shape (map Static s) = Some s"
  by (induction s) simp_all

subsection \<open>Basic facts about the model\<close>

lemma bind_result_Inr [simp]: "bind_result (Inr x) f = f x"
  by (simp add: bind_result_def)

lemma bind_result_Inl [simp]: "bind_result (Inl e) f = Inl e"
  by (simp add: bind_result_def)

lemma bind_result_eq_Inr:
  "bind_result r f = Inr y \<longleftrightarrow> (\<exists>x. r = Inr x \<and> f x = Inr y)"
  by (cases r) simp_all

lemma map_at_eq_Inr: "map_at pm k = Inr v \<longleftrightarrow> pm k = Some v"
  by (simp add: map_at_def split: option.splits)

lemma get_node_Some [simp]: "node_at g i = Some n \<Longrightarrow> get_node g i = Inr n"
  by (simp add: get_node_def)

lemma get_node_eq_Inr: "get_node g i = Inr n \<longleftrightarrow> node_at g i = Some n"
  by (simp add: get_node_def split: option.splits)

lemma node_at_lt: "node_at g i = Some n \<Longrightarrow> i < length g"
  by (auto simp: node_at_def split: if_splits)

lemma node_at_length_append [simp]: "node_at (g @ x # xs) (length g) = x"
  by (simp add: node_at_def)

lemma to_shape_length: "to_shape ds = Some s \<Longrightarrow> length ds = length s"
  by (induction ds arbitrary: s rule: to_shape.induct) auto

lemma get_shape_size:
  "get_shape n = Inr s \<Longrightarrow> partial_shape_size (out_partial_shape n) = length s"
  by (auto simp: get_shape_def partial_shape_size_def to_shape_length split: option.splits)

lemma get_shape_constant_with_shape [simp]:
  "get_shape (constant_with_shape c s) = Inr s"
  by (simp add: get_shape_def constant_with_shape_def to_shape_map_Static)

lemma get_shape_example_node [simp]: "get_shape (example_node t args et s name) = Inr s"
  by (simp add: get_shape_def example_node_def to_shape_map_Static)

lemma count_if_filter: "count_if p xs = length (filter p xs)"
  by (induction xs) simp_all

subsection \<open>Shape canonicalizer\<close>

text \<open>
  C1. A constant of rank 2 is returned as it is, and the graph is unchanged. A constant
  of shape \<open>[d0, d1, d2]\<close> gives one new constant, appended to the graph, with the same
  data and element type, whose shape is \<open>[d0 * d1, d2]\<close> when \<open>has_transpose\<close> holds or
  \<open>grouped\<close> does not, and \<open>[d0, d1 * d2]\<close> otherwise. The products are those of
  \<^verbatim>\<open>size_t\<close>, as in the source.
\<close>

theorem reshape_const_to_2d_canonical:
  assumes "node_at g nid = Some c" and "is_Constant c" and "get_shape c = Inr s"
  shows "(length s = 2 \<longrightarrow> reshape_const_to_2d has_transpose grouped g nid = Inr (nid, g)) \<and>
         (\<forall>d0 d1 d2. s = [d0, d1, d2] \<longrightarrow>
            (\<exists>c'. reshape_const_to_2d has_transpose grouped g nid = Inr (length g, g @ [Some c']) \<and>
                  type_info c' = type_info c \<and>
                  out_element_type c' = out_element_type c \<and>
                  get_shape c' =
                    Inr (if has_transpose \<or> \<not> grouped then [d0 * d1, d2] else [d0, d1 * d2])))"
  using assms
  by (auto simp: reshape_const_to_2d_def add_node_def constant_with_shape_def get_shape_def
        to_shape_map_Static)

theorem reshape_const_to_2d_canonical_witness:
  "reshape_const_to_2d False True (dequantized_graph [4, 8] [1, 8]) 1 =
     Inr (1, dequantized_graph [4, 8] [1, 8]) \<and>
   (\<exists>c'. reshape_const_to_2d False True (dequantized_graph [2, 4, 8] [2, 4, 1]) 1 =
           Inr (7, dequantized_graph [2, 4, 8] [2, 4, 1] @ [Some c']) \<and>
         type_info c' = Constant (Host_data 0) \<and> out_element_type c' = u8 \<and>
         get_shape c' = Inr [2, 32]) \<and>
   (\<exists>c'. reshape_const_to_2d True True (dequantized_graph [2, 4, 8] [2, 4, 1]) 1 =
           Inr (7, dequantized_graph [2, 4, 8] [2, 4, 1] @ [Some c']) \<and>
         get_shape c' = Inr [8, 8])"
proof -
  let ?w = "\<lambda>s. example_node (Constant (Host_data 0)) [] u8 s ''weights''"
  have n: "node_at (dequantized_graph ws ss) 1 = Some (?w ws)" for ws ss
    by (simp add: node_at_def dequantized_graph_def)
  have c: "is_Constant (?w ws)" for ws
    by (simp add: is_Constant_def example_node_def)
  have l: "length (dequantized_graph ws ss) = 7" for ws ss
    by (simp add: dequantized_graph_def)
  have t: "type_info (?w ws) = Constant (Host_data 0)" "out_element_type (?w ws) = u8" for ws
    by (simp_all add: example_node_def)
  show ?thesis
    using reshape_const_to_2d_canonical [OF n [of "[4, 8]" "[1, 8]"] c get_shape_example_node, of False True]
      reshape_const_to_2d_canonical [OF n [of "[2, 4, 8]" "[2, 4, 1]"] c get_shape_example_node, of False True]
      reshape_const_to_2d_canonical [OF n [of "[2, 4, 8]" "[2, 4, 1]"] c get_shape_example_node, of True True]
    by (auto simp: l t)
qed

subsection \<open>Match validator\<close>


text \<open>
  C5. When the four required bindings are present and the veto predicate disallows the
  matched fully-connected root, the callback returns \<^verbatim>\<open>false\<close> and the graph is the one
  it was given.
\<close>

theorem veto_leaves_graph_unchanged:
  assumes "pattern_value_map m fully_connected_m = Some fc_id"
    and "pattern_value_map m mul_const_m \<noteq> None"
    and "pattern_value_map m weights_m \<noteq> None"
    and "pattern_value_map m convert_m \<noteq> None"
    and "node_at g fc_id = Some fc"
    and "transformation_callback h fc"
  shows "callback h m g = Inr (False, g)"
  using assms
  by (cases "as_FullyConnected fc") (clarsimp simp: callback_def map_at_def Let_def)+

theorem veto_leaves_graph_unchanged_witness:
  "transformation_callback vetoing_host (example_node (FullyConnected f32) [0, 4] f32 [1, 2] ''fc'') \<and>
   callback vetoing_host dequantized_match (dequantized_graph [2, 4, 8] [2, 4, 1]) =
     Inr (False, dequantized_graph [2, 4, 8] [2, 4, 1])"
proof -
  have v: "transformation_callback vetoing_host n" for n
    by (simp add: vetoing_host_def)
  have n: "node_at (dequantized_graph [2, 4, 8] [2, 4, 1]) 5 =
      Some (example_node (FullyConnected f32) [0, 4] f32 [1, 2] ''fc'')"
    by (simp add: node_at_def dequantized_graph_def)
  show ?thesis
    using veto_leaves_graph_unchanged [of dequantized_match 5, OF _ _ _ _ n v] v
    by (simp add: dequantized_match_def)
qed

text \<open>
  C10. When the four required bindings are present and the node bound to the root
  pattern is not a \<^verbatim>\<open>FullyConnected\<close> (the dynamic cast gives a null pointer), the callback
  returns \<^verbatim>\<open>false\<close> with the graph it was given: no error is raised.
\<close>

theorem failed_cast_is_skipped:
  assumes "pattern_value_map m fully_connected_m = Some fc_id"
    and "pattern_value_map m mul_const_m \<noteq> None"
    and "pattern_value_map m weights_m \<noteq> None"
    and "pattern_value_map m convert_m \<noteq> None"
    and "node_at g fc_id = Some fc"
    and "as_FullyConnected fc = None"
  shows "callback h m g = Inr (False, g)"
  using assms by (clarsimp simp: callback_def map_at_def Let_def)

theorem failed_cast_is_skipped_witness:
  "as_FullyConnected (example_node Convert [5] f16 [1, 2] ''result'') = None \<and>
   callback allowing_host
     (dequantized_match\<lparr>pattern_value_map := (pattern_value_map dequantized_match)(fully_connected_m \<mapsto> 6)\<rparr>)
     (dequantized_graph [2, 4, 8] [2, 4, 1]) =
     Inr (False, dequantized_graph [2, 4, 8] [2, 4, 1])"
proof -
  let ?m = "dequantized_match\<lparr>pattern_value_map := (pattern_value_map dequantized_match)(fully_connected_m \<mapsto> 6)\<rparr>"
  have c: "as_FullyConnected (example_node Convert [5] f16 [1, 2] ''result'') = None"
    by (simp add: as_FullyConnected_def example_node_def)
  have n: "node_at (dequantized_graph [2, 4, 8] [2, 4, 1]) 6 =
      Some (example_node Convert [5] f16 [1, 2] ''result'')"
    by (simp add: node_at_def dequantized_graph_def)
  show ?thesis
    using failed_cast_is_skipped [of ?m 6, OF _ _ _ _ n c] c
    by (simp add: dequantized_match_def)
qed

lemma example_node_sel [simp]:
  "type_info (example_node t args et s name) = t"
  "inputs (example_node t args et s name) = args"
  "out_element_type (example_node t args et s name) = et"
  "friendly_name (example_node t args et s name) = name"
  "rt_info (example_node t args et s name) = [name]"
  by (simp_all add: example_node_def)

subsection \<open>How the graph grows\<close>

lemma grows_to_refl [simp]: "grows_to g g"
  by (simp add: grows_to_def)

lemma grows_to_trans: "grows_to g g1 \<Longrightarrow> grows_to g1 g2 \<Longrightarrow> grows_to g g2"
  by (auto simp: grows_to_def)

lemma grows_to_length: "grows_to g g' \<Longrightarrow> length g \<le> length g'"
  by (auto simp: grows_to_def)

lemma grows_to_node_at: "grows_to g g' \<Longrightarrow> i < length g \<Longrightarrow> node_at g' i = node_at g i"
  by (auto simp: grows_to_def node_at_def nth_append)

lemma grows_to_keeps: "grows_to g g' \<Longrightarrow> node_at g i = Some n \<Longrightarrow> node_at g' i = Some n"
  by (auto simp: grows_to_def node_at_def nth_append split: if_splits)

lemma grows_to_new:
  assumes "grows_to g g'" and "length g \<le> j" and "node_at g' j = Some n"
  shows "rt_info n = [] \<and> \<not> is_fused n"
proof -
  from assms(1) obtain ns where ns: "g' = g @ ns" "list_all plain_node ns"
    by (auto simp: grows_to_def)
  from assms(2,3) ns(1) have "j - length g < length ns" "ns ! (j - length g) = Some n"
    by (auto simp: node_at_def nth_append split: if_splits)
  with ns(2) have "plain_node (Some n)"
    by (metis list_all_length)
  then show ?thesis by (simp add: plain_node_def)
qed

lemma grows_to_append:
  "grows_to g g1 \<Longrightarrow> list_all plain_node ns \<Longrightarrow> grows_to g (g1 @ ns)"
  by (auto simp: grows_to_def)

lemma grows_to_rt_info:
  assumes "grows_to g g'"
  shows "(case node_at g' i of None \<Rightarrow> [] | Some n \<Rightarrow> rt_info n) =
         (case node_at g i of None \<Rightarrow> [] | Some n \<Rightarrow> rt_info n)"
proof (cases "i < length g")
  case True
  with assms show ?thesis by (simp add: grows_to_node_at)
next
  case False
  then have "node_at g i = None" by (simp add: node_at_def)
  moreover have "(case node_at g' i of None \<Rightarrow> [] | Some n \<Rightarrow> rt_info n) = []"
    using grows_to_new [OF assms, of i] False by (cases "node_at g' i") auto
  ultimately show ?thesis by simp
qed

lemma is_Constant_not_fused: "is_Constant n \<Longrightarrow> \<not> is_fused n"
  by (auto simp: is_Constant_def is_fused_def split: op_type.splits)

lemma is_Constant_constant_with_shape [simp]:
  "is_Constant (constant_with_shape c s) = is_Constant c"
  by (simp add: is_Constant_def constant_with_shape_def)

lemma plain_constant_with_shape:
  "is_Constant c \<Longrightarrow> plain_node (Some (constant_with_shape c s))"
  by (simp add: plain_node_def is_Constant_not_fused) (simp add: constant_with_shape_def)

lemma plain_i32_constant: "plain_node (Some (i32_constant xs))"
  by (simp add: plain_node_def i32_constant_def is_fused_def)

lemma type_info_clone [simp]: "type_info (clone_with_new_inputs h g n args) = type_info n"
  by (simp add: clone_with_new_inputs_def make_node_def)

lemma inputs_clone [simp]: "inputs (clone_with_new_inputs h g n args) = args"
  by (simp add: clone_with_new_inputs_def make_node_def)

lemma plain_clone:
  "type_info n = Transpose \<Longrightarrow> plain_node (Some (clone_with_new_inputs h g n args))"
  by (simp add: plain_node_def is_fused_def) (simp add: clone_with_new_inputs_def make_node_def)

subsection \<open>The stages of the callback, read backwards from a result\<close>

lemma reshape_const_to_2d_cases:
  assumes "reshape_const_to_2d ht gr g nid = Inr (nid', g')"
  shows "\<exists>c s. node_at g nid = Some c \<and> is_Constant c \<and> get_shape c = Inr s \<and>
           (length s = 2 \<and> nid' = nid \<and> g' = g \<or>
            length s = 3 \<and> nid' = length g \<and>
            g' = g @ [Some (constant_with_shape c
                   (if ht \<or> \<not> gr then [s ! 0 * s ! 1, s ! 2] else [s ! 0, s ! 1 * s ! 2]))])"
  using assms
  by (auto simp: reshape_const_to_2d_def bind_result_eq_Inr get_node_eq_Inr add_node_def
           split: if_splits)

lemma reshape_const_to_2d_result:
  assumes "reshape_const_to_2d ht gr g v = Inr (v', g')"
  shows "grows_to g g' \<and>
         (\<exists>c'. node_at g' v' = Some c' \<and> is_Constant c' \<and>
               partial_shape_size (out_partial_shape c') = 2)"
proof -
  from reshape_const_to_2d_cases [OF assms] obtain c s where
    c: "node_at g v = Some c" "is_Constant c" "get_shape c = Inr s"
    and d: "length s = 2 \<and> v' = v \<and> g' = g \<or>
       length s = 3 \<and> v' = length g \<and>
       g' = g @ [Some (constant_with_shape c
              (if ht \<or> \<not> gr then [s ! 0 * s ! 1, s ! 2] else [s ! 0, s ! 1 * s ! 2]))]"
    by blast
  from d show ?thesis
  proof
    assume "length s = 2 \<and> v' = v \<and> g' = g"
    with c show ?thesis by (auto simp: get_shape_size)
  next
    assume e: "length s = 3 \<and> v' = length g \<and>
       g' = g @ [Some (constant_with_shape c
              (if ht \<or> \<not> gr then [s ! 0 * s ! 1, s ! 2] else [s ! 0, s ! 1 * s ! 2]))]"
    let ?c = "constant_with_shape c (if ht \<or> \<not> gr then [s ! 0 * s ! 1, s ! 2] else [s ! 0, s ! 1 * s ! 2])"
    have "grows_to g (g @ [Some ?c])"
      using c(2) by (intro grows_to_append) (simp_all add: plain_constant_with_shape)
    moreover have "partial_shape_size (out_partial_shape ?c) = 2"
      by (simp add: constant_with_shape_def partial_shape_size_def)
    ultimately show ?thesis using e c(2) by auto
  qed
qed

lemma reshape_const_to_2d_total:
  assumes "canonicalizable g v"
  shows "\<exists>v' g'. reshape_const_to_2d ht gr g v = Inr (v', g')"
  using assms
  by (auto simp: canonicalizable_def reshape_const_to_2d_def Let_def split: option.splits sum.splits)

lemma reshape_const_to_2d_outcome:
  assumes "node_at g v = Some c" and "get_shape c = Inr s"
  shows "reshape_const_to_2d ht gr g v = Inl Assertion_failed \<or>
         (\<exists>v' g'. reshape_const_to_2d ht gr g v = Inr (v', g') \<and> (length s = 2 \<or> length s = 3))"
  using assms by (auto simp: reshape_const_to_2d_def Let_def)

lemma canonicalizable_grows: "grows_to g g' \<Longrightarrow> canonicalizable g v \<Longrightarrow> canonicalizable g' v"
  by (auto simp: canonicalizable_def dest: grows_to_keeps split: option.splits)

lemma canonicalize_operands_cases:
  assumes "canonicalize_operands pm ht gr wz g = Inr ((scale, ozp, w), g3)"
  shows "\<exists>sid g1 g2 wid.
     pm mul_const_m = Some sid \<and> reshape_const_to_2d ht gr g sid = Inr (scale, g1) \<and>
     (if wz then \<exists>zid zp. pm sub_const_m = Some zid \<and>
                  reshape_const_to_2d ht gr g1 zid = Inr (zp, g2) \<and> ozp = Some zp
      else ozp = None \<and> g2 = g1) \<and>
     pm weights_m = Some wid \<and> reshape_const_to_2d ht gr g2 wid = Inr (w, g3)"
  using assms
  unfolding canonicalize_operands_def
  by (cases wz) (auto simp: bind_result_eq_Inr map_at_eq_Inr)

lemma canonicalize_operands_total:
  assumes "pm mul_const_m = Some sid" and "canonicalizable g sid"
    and "pm weights_m = Some wid" and "canonicalizable g wid"
    and "wz \<Longrightarrow> \<exists>zid. pm sub_const_m = Some zid \<and> canonicalizable g zid"
  shows "\<exists>r. canonicalize_operands pm ht gr wz g = Inr r"
proof -
  obtain scale g1 where s: "reshape_const_to_2d ht gr g sid = Inr (scale, g1)"
    using reshape_const_to_2d_total [OF assms(2)] by blast
  then have g1: "grows_to g g1" using reshape_const_to_2d_result by blast
  obtain ozp g2 where z: "(if wz then \<exists>zid zp. pm sub_const_m = Some zid \<and>
        reshape_const_to_2d ht gr g1 zid = Inr (zp, g2) \<and> ozp = Some zp else ozp = None \<and> g2 = g1)"
  proof (cases wz)
    case True
    with assms(5) obtain zid where zid: "pm sub_const_m = Some zid" "canonicalizable g zid" by blast
    from canonicalizable_grows [OF g1 zid(2)] obtain zp g2 where
      "reshape_const_to_2d ht gr g1 zid = Inr (zp, g2)"
      using reshape_const_to_2d_total by blast
    with True zid(1) that show ?thesis by auto
  next
    case False
    with that show ?thesis by auto
  qed
  have g2: "grows_to g1 g2"
    using z reshape_const_to_2d_result by (cases wz) auto
  from canonicalizable_grows [OF grows_to_trans [OF g1 g2] assms(4)] obtain w g3 where
    w: "reshape_const_to_2d ht gr g2 wid = Inr (w, g3)"
    using reshape_const_to_2d_total by blast
  show ?thesis
    using assms(1,3) s z w
    by (cases wz) (auto simp: canonicalize_operands_def map_at_def)
qed

lemma canonicalize_operands_result:
  assumes "canonicalize_operands pm ht gr wz g = Inr ((scale, ozp, w), g3)"
  shows "grows_to g g3 \<and>
         (\<exists>c. node_at g3 w = Some c \<and> is_Constant c \<and> partial_shape_size (out_partial_shape c) = 2) \<and>
         (\<exists>c. node_at g3 scale = Some c \<and> is_Constant c) \<and>
         (if wz then \<exists>zp c. ozp = Some zp \<and> node_at g3 zp = Some c \<and> is_Constant c else ozp = None)"
proof -
  from canonicalize_operands_cases [OF assms] obtain sid g1 g2 wid where
    s: "reshape_const_to_2d ht gr g sid = Inr (scale, g1)"
    and z: "if wz then \<exists>zid zp. pm sub_const_m = Some zid \<and>
                  reshape_const_to_2d ht gr g1 zid = Inr (zp, g2) \<and> ozp = Some zp
      else ozp = None \<and> g2 = g1"
    and w: "reshape_const_to_2d ht gr g2 wid = Inr (w, g3)"
    by blast
  note rs = reshape_const_to_2d_result [OF s]
  note rw = reshape_const_to_2d_result [OF w]
  have g12: "grows_to g1 g2"
    using z reshape_const_to_2d_result by (cases wz) auto
  have g: "grows_to g g3"
    using rs rw g12 by (blast intro: grows_to_trans)
  have sc: "\<exists>c. node_at g3 scale = Some c \<and> is_Constant c"
    using rs rw g12 by (blast intro: grows_to_trans grows_to_keeps)
  have zc: "if wz then \<exists>zp c. ozp = Some zp \<and> node_at g3 zp = Some c \<and> is_Constant c else ozp = None"
  proof (cases wz)
    case True
    with z obtain zid zp where "reshape_const_to_2d ht gr g1 zid = Inr (zp, g2)" "ozp = Some zp"
      by auto
    with reshape_const_to_2d_result [OF this(1)] rw True show ?thesis
      by (auto dest: grows_to_keeps)
  next
    case False
    with z show ?thesis by simp
  qed
  from g rw sc zc show ?thesis by blast
qed

text \<open>
  With nodes of static shape bound to the three constants, the canonicalization either
  succeeds, and then all ranks are 2 or 3, or fails on an assertion.
\<close>

lemma canonicalize_operands_outcome:
  assumes "pm mul_const_m = Some sid" and "node_at g sid = Some sc" and "get_shape sc = Inr ss"
    and "pm weights_m = Some wid" and "node_at g wid = Some wc" and "get_shape wc = Inr ws"
    and "wz \<Longrightarrow> pm sub_const_m = Some zid \<and> node_at g zid = Some zc \<and> get_shape zc = Inr zs"
  shows "canonicalize_operands pm ht gr wz g = Inl Assertion_failed \<or>
         (\<exists>r. canonicalize_operands pm ht gr wz g = Inr r) \<and>
         (length ss = 2 \<or> length ss = 3) \<and> (length ws = 2 \<or> length ws = 3) \<and>
         (wz \<longrightarrow> length zs = 2 \<or> length zs = 3)"
proof -
  consider (fail) "reshape_const_to_2d ht gr g sid = Inl Assertion_failed"
    | (ok) scale g1 where "reshape_const_to_2d ht gr g sid = Inr (scale, g1)"
        "length ss = 2 \<or> length ss = 3"
    using reshape_const_to_2d_outcome [OF assms(2,3), of ht gr] by blast
  then show ?thesis
  proof cases
    case fail
    with assms(1) show ?thesis by (simp add: canonicalize_operands_def map_at_def)
  next
    case ok
    have g1: "grows_to g g1" using reshape_const_to_2d_result [OF ok(1)] by blast
    let ?zstep = "if wz
        then bind_result (map_at pm sub_const_m) (\<lambda>sub_const_id.
             bind_result (reshape_const_to_2d ht gr g1 sub_const_id)
               (\<lambda>(zero_point, g2). Inr (Some zero_point, g2)))
        else Inr (None, g1)"
    have "?zstep = Inl Assertion_failed \<or>
          (\<exists>ozp g2. ?zstep = Inr (ozp, g2) \<and> grows_to g1 g2 \<and> (wz \<longrightarrow> length zs = 2 \<or> length zs = 3))"
    proof (cases wz)
      case True
      with assms(7) have z: "pm sub_const_m = Some zid" "node_at g1 zid = Some zc" "get_shape zc = Inr zs"
        using g1 by (auto dest: grows_to_keeps)
      from reshape_const_to_2d_outcome [OF z(2,3), of ht gr] show ?thesis
      proof
        assume "reshape_const_to_2d ht gr g1 zid = Inl Assertion_failed"
        with True z(1) show ?thesis by (simp add: map_at_def)
      next
        assume "\<exists>v' g'. reshape_const_to_2d ht gr g1 zid = Inr (v', g') \<and> (length zs = 2 \<or> length zs = 3)"
        then obtain zp g2 where r: "reshape_const_to_2d ht gr g1 zid = Inr (zp, g2)"
          "length zs = 2 \<or> length zs = 3" by blast
        with reshape_const_to_2d_result [OF r(1)] True z(1) show ?thesis
          by (simp add: map_at_def)
      qed
    next
      case False
      then show ?thesis by simp
    qed
    then show ?thesis
    proof
      assume "?zstep = Inl Assertion_failed"
      with assms(1) ok(1) show ?thesis
        by (simp add: canonicalize_operands_def map_at_def)
    next
      assume "\<exists>ozp g2. ?zstep = Inr (ozp, g2) \<and> grows_to g1 g2 \<and> (wz \<longrightarrow> length zs = 2 \<or> length zs = 3)"
      then obtain ozp g2 where z: "?zstep = Inr (ozp, g2)" "grows_to g1 g2"
        "wz \<longrightarrow> length zs = 2 \<or> length zs = 3" by blast
      have w: "node_at g2 wid = Some wc"
        using assms(5) g1 z(2) by (blast intro: grows_to_keeps)
      from reshape_const_to_2d_outcome [OF w assms(6), of ht gr] show ?thesis
      proof
        assume "reshape_const_to_2d ht gr g2 wid = Inl Assertion_failed"
        with assms(1,4) ok(1) z(1) show ?thesis
          by (simp add: canonicalize_operands_def map_at_def)
      next
        assume "\<exists>v' g'. reshape_const_to_2d ht gr g2 wid = Inr (v', g') \<and> (length ws = 2 \<or> length ws = 3)"
        then obtain w' g3 where "reshape_const_to_2d ht gr g2 wid = Inr (w', g3)"
          "length ws = 2 \<or> length ws = 3" by blast
        with assms(1,4) ok z(1,3) show ?thesis
          by (simp add: canonicalize_operands_def map_at_def)
      qed
    qed
  qed
qed

subsection \<open>Contract violations\<close>

text \<open>
  C7. A missing binding for the fully-connected root, the scale constant, the weight
  constant or the convert node makes the callback fail on an assertion. So does a
  canonicalization input whose rank is neither 2 nor 3: the lambda fails on its
  assertion, and when the callback has reached the canonicalizer (bindings present, a
  \<^verbatim>\<open>FullyConnected\<close> root with an input, no veto) with nodes of static shape bound to
  the constants, a scale, zero point (when the subtract branch is bound) or weight of
  such a rank makes the callback fail on that assertion.
\<close>

theorem contract_violation_raises:
  "(pattern_value_map m fully_connected_m = None \<or> pattern_value_map m mul_const_m = None \<or>
    pattern_value_map m weights_m = None \<or> pattern_value_map m convert_m = None
      \<longrightarrow> callback h m g = Inl Assertion_failed) \<and>
   (node_at g v = Some c \<and> get_shape c = Inr s \<and> length s \<noteq> 2 \<and> length s \<noteq> 3
      \<longrightarrow> reshape_const_to_2d has_transpose grouped g v = Inl Assertion_failed) \<and>
   (pattern_value_map m fully_connected_m = Some fc_id \<and> node_at g fc_id = Some fc \<and>
    as_FullyConnected fc \<noteq> None \<and> \<not> transformation_callback h fc \<and> inputs fc \<noteq> [] \<and>
    pattern_value_map m convert_m \<noteq> None \<and>
    pattern_value_map m mul_const_m = Some sid \<and> node_at g sid = Some sc \<and> get_shape sc = Inr ss \<and>
    pattern_value_map m weights_m = Some wid \<and> node_at g wid = Some wc \<and> get_shape wc = Inr ws \<and>
    (pattern_value_map m subtract_m \<noteq> None \<longrightarrow>
       pattern_value_map m sub_const_m = Some zid \<and> node_at g zid = Some zc \<and> get_shape zc = Inr zs) \<and>
    (length ss \<noteq> 2 \<and> length ss \<noteq> 3 \<or>
     pattern_value_map m subtract_m \<noteq> None \<and> length zs \<noteq> 2 \<and> length zs \<noteq> 3 \<or>
     length ws \<noteq> 2 \<and> length ws \<noteq> 3)
      \<longrightarrow> callback h m g = Inl Assertion_failed)"
proof (intro conjI impI)
  assume "pattern_value_map m fully_connected_m = None \<or> pattern_value_map m mul_const_m = None \<or>
    pattern_value_map m weights_m = None \<or> pattern_value_map m convert_m = None"
  then show "callback h m g = Inl Assertion_failed"
    by (auto simp: callback_def Let_def)
next
  assume "node_at g v = Some c \<and> get_shape c = Inr s \<and> length s \<noteq> 2 \<and> length s \<noteq> 3"
  then show "reshape_const_to_2d has_transpose grouped g v = Inl Assertion_failed"
    by (simp add: reshape_const_to_2d_def)
next
  assume a: "pattern_value_map m fully_connected_m = Some fc_id \<and> node_at g fc_id = Some fc \<and>
    as_FullyConnected fc \<noteq> None \<and> \<not> transformation_callback h fc \<and> inputs fc \<noteq> [] \<and>
    pattern_value_map m convert_m \<noteq> None \<and>
    pattern_value_map m mul_const_m = Some sid \<and> node_at g sid = Some sc \<and> get_shape sc = Inr ss \<and>
    pattern_value_map m weights_m = Some wid \<and> node_at g wid = Some wc \<and> get_shape wc = Inr ws \<and>
    (pattern_value_map m subtract_m \<noteq> None \<longrightarrow>
       pattern_value_map m sub_const_m = Some zid \<and> node_at g zid = Some zc \<and> get_shape zc = Inr zs) \<and>
    (length ss \<noteq> 2 \<and> length ss \<noteq> 3 \<or>
     pattern_value_map m subtract_m \<noteq> None \<and> length zs \<noteq> 2 \<and> length zs \<noteq> 3 \<or>
     length ws \<noteq> 2 \<and> length ws \<noteq> 3)"
  let ?pm = "pattern_value_map m"
  let ?ht = "?pm transpose_m \<noteq> None"
  let ?wz = "?pm subtract_m \<noteq> None"
  from a have z: "?wz \<Longrightarrow> ?pm sub_const_m = Some zid \<and> node_at g zid = Some zc \<and> get_shape zc = Inr zs"
    by blast
  from a have b: "?pm mul_const_m = Some sid" "node_at g sid = Some sc" "get_shape sc = Inr ss"
    "?pm weights_m = Some wid" "node_at g wid = Some wc" "get_shape wc = Inr ws"
    by blast+
  from a have bad: "length ss \<noteq> 2 \<and> length ss \<noteq> 3 \<or> ?wz \<and> length zs \<noteq> 2 \<and> length zs \<noteq> 3 \<or>
     length ws \<noteq> 2 \<and> length ws \<noteq> 3" by blast
  have c: "canonicalize_operands ?pm ?ht (grouped_of ss) ?wz g = Inl Assertion_failed"
    using canonicalize_operands_outcome
      [where ht = ?ht and gr = "grouped_of ss" and wz = ?wz, OF b(1-3) b(4-6) z] bad
    by auto
  from a obtain t where t: "as_FullyConnected fc = Some t" by auto
  from a obtain x xs where i: "inputs fc = x # xs" by (cases "inputs fc") auto
  from a b t i c show "callback h m g = Inl Assertion_failed"
    by (simp add: callback_def map_at_def get_input_node_def Let_def)
qed

theorem contract_violation_raises_witness:
  "callback allowing_host
     (dequantized_match\<lparr>pattern_value_map := (pattern_value_map dequantized_match)(convert_m := None)\<rparr>)
     (dequantized_graph [4, 8] [8]) = Inl Assertion_failed \<and>
   reshape_const_to_2d False False (dequantized_graph [4, 8] [8]) 3 = Inl Assertion_failed \<and>
   callback allowing_host dequantized_match (dequantized_graph [4, 8] [8]) = Inl Assertion_failed"
proof -
  let ?g = "dequantized_graph [4, 8] [8]"
  let ?m = "dequantized_match\<lparr>pattern_value_map := (pattern_value_map dequantized_match)(convert_m := None)\<rparr>"
  let ?fc = "example_node (FullyConnected f32) [0, 4] f32 [1, 2] ''fc''"
  let ?sc = "example_node (Constant (Host_data 1)) [] f16 [8] ''scale''"
  let ?wc = "example_node (Constant (Host_data 0)) [] u8 [4, 8] ''weights''"
  have n: "node_at ?g 5 = Some ?fc" "node_at ?g 3 = Some ?sc" "node_at ?g 1 = Some ?wc"
    by (simp_all add: node_at_def dequantized_graph_def)
  have 1: "callback allowing_host ?m ?g = Inl Assertion_failed"
    using contract_violation_raises [where m = ?m and h = allowing_host and g = ?g]
    by simp
  have 2: "reshape_const_to_2d False False ?g 3 = Inl Assertion_failed"
    using contract_violation_raises [where g = ?g and v = 3 and c = ?sc and s = "[8]"
        and has_transpose = False and grouped = False] n
    by simp
  have 3: "callback allowing_host dequantized_match ?g = Inl Assertion_failed"
    using contract_violation_raises [where m = dequantized_match and h = allowing_host and g = ?g
        and fc_id = 5 and fc = ?fc and sid = 3 and sc = ?sc and ss = "[8]"
        and wid = 1 and wc = ?wc and ws = "[4, 8]"] n
    by (simp add: dequantized_match_def allowing_host_def as_FullyConnected_def)
  from 1 2 3 show ?thesis by simp
qed

subsection \<open>Transpose propagator and fused-node builder\<close>

lemma swapped_order_formula:
  assumes "2 \<le> r"
  shows "swapped_order r = Inr (map of_nat ([0..<r - 2] @ [r - 1, r - 2]))"
proof -
  have "(map of_nat [0..<r] :: 32 word list)[r - 1 := map of_nat [0..<r] ! (r - 2),
          r - 2 := map of_nat [0..<r] ! (r - 1)] = map of_nat ([0..<r - 2] @ [r - 1, r - 2])"
    using assms
    by (intro nth_equalityI) (auto simp: nth_list_update nth_append nth_Cons')
  with assms show ?thesis by (simp add: swapped_order_def Let_def)
qed

lemma effective_transpose_const_cases:
  assumes "effective_transpose_const g tcid b = Inr (tc', g1)"
  shows "\<exists>tc ts wn. node_at g tcid = Some tc \<and> get_shape tc = Inr ts \<and> node_at g b = Some wn \<and>
     (if shape_size ts = of_nat (partial_shape_size (out_partial_shape wn))
      then tc' = tcid \<and> g1 = g
      else tc' = length g \<and>
           (\<exists>order. swapped_order (partial_shape_size (out_partial_shape wn)) = Inr order \<and>
              g1 = g @ [Some (i32_constant order)]))"
  using assms
  unfolding effective_transpose_const_def
  by (auto simp: bind_result_eq_Inr get_node_eq_Inr add_node_def Let_def split: if_splits)

lemma effective_transpose_const_total:
  assumes "node_at g tcid = Some tc" and "get_shape tc = Inr ts" and "node_at g w = Some wn"
    and "partial_shape_size (out_partial_shape wn) = 2"
  shows "\<exists>tc' g1. effective_transpose_const g tcid w = Inr (tc', g1) \<and> grows_to g g1"
  using assms
  by (auto simp: effective_transpose_const_def swapped_order_def add_node_def Let_def
      intro!: grows_to_append plain_i32_constant)

lemma transpose_operands_cases:
  assumes "transpose_operands h pm wz b s oz g = Inr ((b', s', z'), g')"
  shows "\<exists>tid tn tcid tc' g1 n1 n2.
     pm transpose_m = Some tid \<and> node_at g tid = Some tn \<and>
     pm transpose_const_m = Some tcid \<and>
     effective_transpose_const g tcid b = Inr (tc', g1) \<and>
     b' = length g1 \<and> s' = Suc (length g1) \<and>
     type_info n1 = type_info tn \<and> inputs n1 = [b, tc'] \<and> rt_info n1 = [] \<and>
     type_info n2 = type_info tn \<and> inputs n2 = [s, tc'] \<and> rt_info n2 = [] \<and>
     (if wz
      then \<exists>z n3. oz = Some z \<and> z' = Some (Suc (Suc (length g1))) \<and>
             type_info n3 = type_info tn \<and> inputs n3 = [z, tc'] \<and> rt_info n3 = [] \<and>
             g' = g1 @ [Some n1, Some n2, Some n3]
      else z' = oz \<and> g' = g1 @ [Some n1, Some n2])"
proof -
  from assms obtain tid tn tcid tc' g1 where
    a: "pm transpose_m = Some tid" "node_at g tid = Some tn" "pm transpose_const_m = Some tcid"
       "effective_transpose_const g tcid b = Inr (tc', g1)"
    unfolding transpose_operands_def
    by (auto simp: bind_result_eq_Inr map_at_eq_Inr get_node_eq_Inr)
  let ?n1 = "clone_with_new_inputs h g1 tn [b, tc']"
  let ?n2 = "clone_with_new_inputs h (g1 @ [Some ?n1]) tn [s, tc']"
  let ?n3 = "\<lambda>z. clone_with_new_inputs h (g1 @ [Some ?n1, Some ?n2]) tn [z, tc']"
  have e: "rt_info (clone_with_new_inputs h x tn args) = []" for x args
    by (simp add: clone_with_new_inputs_def make_node_def)
  have r: "(if wz then (case oz of None \<Rightarrow> Inl Out_of_bounds
                        | Some z \<Rightarrow> Inr ((length g1, Suc (length g1), Some (Suc (Suc (length g1)))),
                                 g1 @ [Some ?n1, Some ?n2, Some (?n3 z)]))
            else Inr ((length g1, Suc (length g1), oz), g1 @ [Some ?n1, Some ?n2]))
           = Inr ((b', s', z'), g')"
    using assms a
    by (cases wz; cases oz) (simp_all add: transpose_operands_def map_at_def add_node_def Let_def)
  show ?thesis
  proof (cases wz)
    case True
    with r obtain z where "oz = Some z" by (cases oz) auto
    with r True a e show ?thesis
      by (intro exI [of _ tid] exI [of _ tn] exI [of _ tcid] exI [of _ tc'] exI [of _ g1]
            exI [of _ ?n1] exI [of _ ?n2]) (auto intro!: exI [of _ "?n3 z"])
  next
    case False
    with r a e show ?thesis
      by (intro exI [of _ tid] exI [of _ tn] exI [of _ tcid] exI [of _ tc'] exI [of _ g1]
            exI [of _ ?n1] exI [of _ ?n2]) auto
  qed
qed

lemma transpose_operands_total:
  assumes "pm transpose_m = Some tid" and "node_at g tid = Some tn" and "type_info tn = Transpose"
    and "pm transpose_const_m = Some tcid" and "node_at g tcid = Some tc" and "get_shape tc = Inr ts"
    and "node_at g w = Some wn" and "partial_shape_size (out_partial_shape wn) = 2"
    and "wz \<Longrightarrow> oz \<noteq> None"
  shows "\<exists>b s' z' g'. transpose_operands h pm wz w s oz g = Inr ((b, s', z'), g') \<and>
           grows_to g g' \<and> (wz \<longrightarrow> z' \<noteq> None)"
proof -
  from effective_transpose_const_total [OF assms(5-8)] obtain tc' g1 where
    e: "effective_transpose_const g tcid w = Inr (tc', g1)" "grows_to g g1" by blast
  let ?n1 = "clone_with_new_inputs h g1 tn [w, tc']"
  let ?n2 = "clone_with_new_inputs h (g1 @ [Some ?n1]) tn [s, tc']"
  let ?n3 = "\<lambda>z. clone_with_new_inputs h (g1 @ [Some ?n1, Some ?n2]) tn [z, tc']"
  show ?thesis
  proof (cases wz)
    case True
    with assms(9) obtain z where z: "oz = Some z" by auto
    have "grows_to g (g1 @ [Some ?n1, Some ?n2, Some (?n3 z)])"
      using e(2) assms(3) by (intro grows_to_append) (simp_all add: plain_clone)
    with True z e(1) assms(1,2,4) show ?thesis
      by (simp add: transpose_operands_def map_at_def add_node_def Let_def)
  next
    case False
    have "grows_to g (g1 @ [Some ?n1, Some ?n2])"
      using e(2) assms(3) by (intro grows_to_append) (simp_all add: plain_clone)
    with False e(1) assms(1,2,4) show ?thesis
      by (simp add: transpose_operands_def map_at_def add_node_def Let_def)
  qed
qed

lemma build_fused_cases:
  assumes "build_fused h matched fc_id fc t wz a b s z g = Inr g'"
  shows "\<exists>operands.
     (if wz then \<exists>zp. z = Some zp \<and> operands = [a, b, s, zp] else operands = [a, b, s]) \<and>
     g' = replace_node (g @ [Some (fused_node h g matched fc t operands)]) fc_id (length g)"
  using assms
  unfolding build_fused_def
  by (cases wz; cases z) (auto simp: bind_result_eq_Inr add_node_def)

lemma callback_True_cases:
  assumes "callback h m g = Inr (True, g')"
  shows "\<exists>fc_id fc output_type sid sc ss a scale ozp w g3 b s' z' g4.
     pattern_value_map m fully_connected_m = Some fc_id \<and> node_at g fc_id = Some fc \<and>
     as_FullyConnected fc = Some output_type \<and> \<not> transformation_callback h fc \<and>
     pattern_value_map m mul_const_m = Some sid \<and> node_at g sid = Some sc \<and>
     get_shape sc = Inr ss \<and> get_input_node fc 0 = Inr a \<and>
     canonicalize_operands (pattern_value_map m) (pattern_value_map m transpose_m \<noteq> None)
        (grouped_of ss) (pattern_value_map m subtract_m \<noteq> None) g = Inr ((scale, ozp, w), g3) \<and>
     (if pattern_value_map m transpose_m \<noteq> None
      then transpose_operands h (pattern_value_map m) (pattern_value_map m subtract_m \<noteq> None) w scale ozp g3
             = Inr ((b, s', z'), g4)
      else b = w \<and> s' = scale \<and> z' = ozp \<and> g4 = g3) \<and>
     build_fused h (matched_nodes m) fc_id fc output_type (pattern_value_map m subtract_m \<noteq> None)
        a b s' z' g4 = Inr g'"
proof -
  from assms have nn: "pattern_value_map m fully_connected_m \<noteq> None"
    "pattern_value_map m mul_const_m \<noteq> None"
    by (auto simp: callback_def Let_def split: if_splits)
  then obtain fc_id sid where b: "pattern_value_map m fully_connected_m = Some fc_id"
    "pattern_value_map m mul_const_m = Some sid" by auto
  from assms b obtain fc where fc: "node_at g fc_id = Some fc"
    by (auto simp: callback_def Let_def map_at_def bind_result_eq_Inr get_node_eq_Inr split: if_splits)
  from assms b fc obtain output_type where ot: "as_FullyConnected fc = Some output_type"
    by (cases "as_FullyConnected fc") (auto simp: callback_def Let_def map_at_def split: if_splits)
  from assms b fc ot have veto: "\<not> transformation_callback h fc"
    by (auto simp: callback_def Let_def map_at_def split: if_splits)
  from assms b fc ot veto show ?thesis
    apply (simp add: callback_def Let_def map_at_def bind_result_eq_Inr get_node_eq_Inr split: if_splits)
    apply (elim exE conjE)
    apply (cases "pattern_value_map m transpose_m")
     apply fastforce+
    done
qed

subsection \<open>Replacing a node\<close>

lemma rewire_sel [simp]:
  "type_info (rewire t r n) = type_info n"
  "inputs (rewire t r n) = map (\<lambda>i. if i = t then r else i) (inputs n)"
  "out_element_type (rewire t r n) = out_element_type n"
  "out_partial_shape (rewire t r n) = out_partial_shape n"
  "friendly_name (rewire t r n) = friendly_name n"
  "rt_info (rewire t r n) = rt_info n"
  by (simp_all add: rewire_def)

lemma rewire_no_inputs: "inputs n = [] \<Longrightarrow> rewire t r n = n"
  by (simp add: rewire_def)

lemma is_fused_rewire [simp]: "is_fused (rewire t r n) = is_fused n"
  by (simp add: is_fused_def)

lemma is_Constant_rewire [simp]: "is_Constant (rewire t r n) = is_Constant n"
  by (simp add: is_Constant_def)

lemma length_replace_node [simp]: "length (replace_node g t r) = length g"
  by (simp add: replace_node_def)

lemma node_at_replace_node:
  "node_at (replace_node g t r) i =
     (if i = t then None else map_option (rewire t r) (node_at g i))"
  by (auto simp: node_at_def replace_node_def)

lemma node_at_append_lt: "i < length g \<Longrightarrow> node_at (g @ xs) i = node_at g i"
  by (simp add: node_at_def nth_append)

lemma node_at_append_ge:
  "node_at (g @ xs) (length g + k) = (if k < length xs then xs ! k else None)"
  by (simp add: node_at_def nth_append)

lemma fused_node_sel [simp]:
  "type_info (fused_node h g matched fc t operands) = FullyConnectedCompressed t"
  "inputs (fused_node h g matched fc t operands) = operands"
  "friendly_name (fused_node h g matched fc t operands) = friendly_name fc"
  "rt_info (fused_node h g matched fc t operands) =
     concat (map (\<lambda>i. case node_at g i of None \<Rightarrow> [] | Some n \<Rightarrow> rt_info n) matched)"
  by (simp_all add: fused_node_def make_node_def copy_runtime_info_def Let_def)

lemma Constant_is_not_FullyConnected:
  "is_Constant n \<Longrightarrow> as_FullyConnected n = None"
  by (auto simp: is_Constant_def as_FullyConnected_def split: op_type.splits)

subsection \<open>The examples, evaluated\<close>

lemmas match_defs = run_matcher_def match_fully_connected_m_def match_weights_input_m_def
  match_data_m_def match_transpose_m_def match_transpose_const_m_def match_transpose_input_def
  match_reshape_m_def match_reshape_const_m_def match_mul_m_def match_mul_no_sub_m_def
  match_mul_with_sub_m_def match_mul_const_m_def match_subtract_m_def match_sub_const_m_def
  match_convert_m_def match_weights_m_def wrap_type_def any_input_def consumers_count_def
  no_predicate_def Constant_op_def FullyConnected_op_def compressed_constant_def
  reshape_3d_to_2d_def target_inputs_size_def bind_pattern_def empty_matcher_def node_at_def
  partial_shape_size_def

lemma dequantized_graph_matches:
  "run_matcher (dequantized_graph [2, 4, 8] scale_shape) 5 = Some dequantized_match"
  "run_matcher (dequantized_graph [4, 8] scale_shape) 5 = Some dequantized_match"
  by (simp_all add: match_defs dequantized_graph_def example_node_def dequantized_match_def)

lemma transposed_graph_matches: "run_matcher transposed_graph 7 = Some transposed_match"
  by (simp add: match_defs transposed_graph_def example_node_def transposed_match_def)

lemma zero_point_graph_matches: "run_matcher zero_point_graph 11 = Some zero_point_match"
  by (simp add: match_defs zero_point_graph_def example_node_def zero_point_match_def)

lemma shared_scale_graph_does_not_match: "run_matcher shared_scale_graph 5 = None"
  by (simp add: match_defs shared_scale_graph_def dequantized_graph_def example_node_def)

lemma example_rewrites:
  "map_sum id fst (callback allowing_host dequantized_match (dequantized_graph [2, 4, 8] [2, 4, 1]))
     = Inr True"
  "map_sum id fst (callback allowing_host transposed_match transposed_graph) = Inr True"
  by code_simp+

lemma zero_point_example_rewrites:
  "map_sum id fst (callback allowing_host zero_point_match zero_point_graph) = Inr True"
  by code_simp

lemma rank_1_scale_raises:
  "callback allowing_host dequantized_match (dequantized_graph [4, 8] [8]) = Inl Assertion_failed"
  by code_simp

lemma vetoed_example:
  "callback vetoing_host dequantized_match (dequantized_graph [2, 4, 8] [2, 4, 1]) =
     Inr (False, dequantized_graph [2, 4, 8] [2, 4, 1])"
  by code_simp

subsection \<open>Fused-node builder\<close>




subsection \<open>Transpose propagator\<close>



subsection \<open>The pattern on a rewritten graph\<close>

lemma wrap_type_other_class:
  "node_at g v = Some n \<Longrightarrow> \<not> wrapped (type_info n) \<Longrightarrow>
   wrap_type g wrapped label pattern_inputs predicate v m = None"
  by (simp add: wrap_type_def)

lemma wrap_type_first_input_fails:
  assumes "node_at g v = Some n" and "inputs n = a # rest" and "\<And>m'. p a m' = None"
  shows "wrap_type g wrapped label (p # ps) predicate v m = None"
  using assms by (simp add: wrap_type_def)

lemma constant_matches_no_operator:
  assumes "node_at g v = Some c" and "is_Constant c"
  shows "match_convert_m g v m = None" and "match_subtract_m g v m = None"
    and "match_mul_m g v m = None" and "match_reshape_m g v m = None"
    and "match_transpose_m g v m = None"
proof -
  from assms(2) obtain buf where t: "type_info c = Constant buf"
    by (auto simp: is_Constant_def split: op_type.splits)
  show "match_convert_m g v m = None"
    unfolding match_convert_m_def using assms(1) by (rule wrap_type_other_class) (simp add: t)
  show "match_subtract_m g v m = None"
    unfolding match_subtract_m_def using assms(1) by (rule wrap_type_other_class) (simp add: t)
  have "match_mul_with_sub_m g v m = None"
    unfolding match_mul_with_sub_m_def using assms(1) by (rule wrap_type_other_class) (simp add: t)
  moreover have "match_mul_no_sub_m g v m = None"
    unfolding match_mul_no_sub_m_def using assms(1) by (rule wrap_type_other_class) (simp add: t)
  ultimately show "match_mul_m g v m = None"
    by (simp add: match_mul_m_def)
  show "match_reshape_m g v m = None"
    unfolding match_reshape_m_def using assms(1) by (rule wrap_type_other_class) (simp add: t)
  show "match_transpose_m g v m = None"
    unfolding match_transpose_m_def using assms(1) by (rule wrap_type_other_class) (simp add: t)
qed

lemma weights_input_not_a_constant:
  assumes "node_at g v = Some c" and "is_Constant c"
  shows "match_weights_input_m g v m = None"
  using constant_matches_no_operator [OF assms]
  by (simp add: match_weights_input_m_def)

lemma weights_input_not_over_a_constant:
  assumes "node_at g v = Some n" and "inputs n = a # rest"
    and "node_at g a = Some c" and "is_Constant c"
  shows "match_weights_input_m g v m = None"
proof -
  note c = constant_matches_no_operator [OF assms(3,4)]
  have "match_reshape_m g v m = None"
    unfolding match_reshape_m_def using assms(1,2) c(3)
    by (rule wrap_type_first_input_fails)
  moreover have "match_transpose_m g v m = None"
    unfolding match_transpose_m_def using assms(1,2)
    by (rule wrap_type_first_input_fails) (simp add: match_transpose_input_def c)
  moreover have "match_mul_with_sub_m g v m = None"
    unfolding match_mul_with_sub_m_def using assms(1,2) c(2)
    by (rule wrap_type_first_input_fails)
  moreover have "match_mul_no_sub_m g v m = None"
    unfolding match_mul_no_sub_m_def using assms(1,2) c(1)
    by (rule wrap_type_first_input_fails)
  ultimately show ?thesis
    by (simp add: match_weights_input_m_def match_mul_m_def)
qed

text \<open>
  C8. After a rewrite the pattern does not match at the fused node. Its weights operand is
  a constant, or a clone of the transpose whose first input is a constant, so none of
  the three alternatives of \<^verbatim>\<open>weights_input_m\<close> (reshape, transpose, multiply, each over
  the multiply-rooted chain) matches it, from whatever state the matcher starts; and the
  matcher run at the fused node fails.
\<close>

theorem no_match_after_rewrite:
  assumes ok: "callback h m g = Inr (True, g')"
  shows "\<exists>new_fc. node_at g' (length g' - 1) = Some new_fc \<and> is_fused new_fc \<and>
           (\<forall>m0. match_weights_input_m g' (inputs new_fc ! 1) m0 = None) \<and>
           run_matcher g' (length g' - 1) = None"
proof -
  let ?pm = "pattern_value_map m"
  let ?ht = "?pm transpose_m \<noteq> None"
  let ?wz = "?pm subtract_m \<noteq> None"
  from callback_True_cases [OF ok] obtain fc_id fc output_type ss a scale ozp w g3 b s' z' g4 where
    fc: "node_at g fc_id = Some fc" "as_FullyConnected fc = Some output_type"
    and can: "canonicalize_operands ?pm ?ht (grouped_of ss) ?wz g = Inr ((scale, ozp, w), g3)"
    and tr: "if ?ht
      then transpose_operands h ?pm ?wz w scale ozp g3 = Inr ((b, s', z'), g4)
      else b = w \<and> s' = scale \<and> z' = ozp \<and> g4 = g3"
    and bf: "build_fused h (matched_nodes m) fc_id fc output_type ?wz a b s' z' g4 = Inr g'"
    by blast
  from canonicalize_operands_result [OF can] obtain wn where
    g3: "grows_to g g3" and wn: "node_at g3 w = Some wn" "is_Constant wn"
    by blast
  from build_fused_cases [OF bf] obtain operands where
    ops: "if ?wz then \<exists>zp. z' = Some zp \<and> operands = [a, b, s', zp] else operands = [a, b, s']"
    and g': "g' = replace_node (g4 @ [Some (fused_node h g4 (matched_nodes m) fc output_type operands)])
        fc_id (length g4)"
    by blast
  let ?F = "fused_node h g4 (matched_nodes m) fc output_type operands"
  let ?L = "length g4"
  let ?rw = "rewire fc_id ?L"
  have fc3: "node_at g3 fc_id = Some fc" using g3 fc(1) by (rule grows_to_keeps)
  have lt: "fc_id < length g3" using fc3 by (rule node_at_lt)
  have wfc: "w \<noteq> fc_id" using wn fc3 fc(2) by (auto dest: Constant_is_not_FullyConnected)
  have wlt: "w < length g3" using wn(1) by (rule node_at_lt)
  obtain xs where g4x: "g4 = g3 @ xs"
    and bcase: "b = w \<or> (\<exists>n1. length g3 \<le> b \<and> node_at g4 b = Some n1 \<and> hd (inputs n1) = w \<and> inputs n1 \<noteq> [])"
  proof (cases ?ht)
    case False
    with tr that [of "[]"] show ?thesis by simp
  next
    case True
    with tr have t: "transpose_operands h ?pm ?wz w scale ozp g3 = Inr ((b, s', z'), g4)" by simp
    from transpose_operands_cases [OF t] obtain tid tn tcid tc' g1 n1 n2 where
      tn: "node_at g3 tid = Some tn"
      and eff: "effective_transpose_const g3 tcid w = Inr (tc', g1)"
      and b: "b = length g1" "s' = Suc (length g1)"
      and n1: "type_info n1 = type_info tn" "inputs n1 = [w, tc']"
      and n2: "type_info n2 = type_info tn" "inputs n2 = [scale, tc']"
      and rest: "if ?wz
        then \<exists>z n3. ozp = Some z \<and> z' = Some (Suc (Suc (length g1))) \<and>
               type_info n3 = type_info tn \<and> inputs n3 = [z, tc'] \<and> rt_info n3 = [] \<and>
               g4 = g1 @ [Some n1, Some n2, Some n3]
        else z' = ozp \<and> g4 = g1 @ [Some n1, Some n2]"
      by blast
    from effective_transpose_const_cases [OF eff] obtain ys where g1: "g1 = g3 @ ys"
      by (auto split: if_splits)
    from rest obtain zs where g4: "g4 = g1 @ Some n1 # zs" by (cases ?wz) auto
    have "node_at g4 b = Some n1" by (simp add: g4 b)
    with that [of "ys @ Some n1 # zs"] g1 g4 b(1) n1(2) show ?thesis by simp
  qed
  have len: "length g' - 1 = ?L" by (simp add: g')
  have lt4: "fc_id < length g4" using lt by (simp add: g4x)
  have fused: "node_at g' ?L = Some (?rw ?F)"
    using lt4 by (simp add: g' node_at_replace_node)
  have wc: "node_at g' w = Some (?rw wn)"
    using wn(1) wfc wlt by (simp add: g' node_at_replace_node g4x node_at_append_lt)
  have b_fc: "b \<noteq> fc_id" using bcase wfc lt by auto
  have in1: "inputs (?rw ?F) ! 1 = b"
    using ops b_fc by (cases ?wz) auto
  have nomatch: "match_weights_input_m g' b m0 = None" for m0
    using bcase
  proof
    assume "b = w"
    with wc wn(2) show ?thesis by (simp add: weights_input_not_a_constant)
  next
    assume "\<exists>n1. length g3 \<le> b \<and> node_at g4 b = Some n1 \<and> hd (inputs n1) = w \<and> inputs n1 \<noteq> []"
    then obtain n1 where n1: "node_at g4 b = Some n1" "hd (inputs n1) = w" "inputs n1 \<noteq> []"
      by blast
    from n1(1) have "b < length g4" by (rule node_at_lt)
    with n1(1) b_fc have nb: "node_at g' b = Some (?rw n1)"
      by (simp add: g' node_at_replace_node node_at_append_lt)
    from n1(2,3) wfc obtain rest where "inputs (?rw n1) = w # rest"
      by (cases "inputs n1") auto
    from weights_input_not_over_a_constant [OF nb this wc] wn(2) show ?thesis by simp
  qed
  have "run_matcher g' ?L = None"
    unfolding run_matcher_def match_fully_connected_m_def using fused
    by (rule wrap_type_other_class) (simp add: FullyConnected_op_def)
  with len fused in1 nomatch show ?thesis
    by (intro exI [of _ "?rw ?F"]) (simp add: is_fused_def)
qed

theorem no_match_after_rewrite_witness:
  "\<exists>g' new_fc.
     callback allowing_host dequantized_match (dequantized_graph [2, 4, 8] [2, 4, 1]) = Inr (True, g') \<and>
     node_at g' (length g' - 1) = Some new_fc \<and> is_fused new_fc \<and>
     match_weights_input_m g' (inputs new_fc ! 1) empty_matcher = None \<and>
     run_matcher g' (length g' - 1) = None"
proof -
  from example_rewrites(1) obtain g' where
    ok: "callback allowing_host dequantized_match (dequantized_graph [2, 4, 8] [2, 4, 1]) = Inr (True, g')"
    by (cases "callback allowing_host dequantized_match (dequantized_graph [2, 4, 8] [2, 4, 1])") auto
  from no_match_after_rewrite [OF ok] ok show ?thesis by blast
qed

subsection \<open>Pattern specification\<close>

lemma preserves_or_pattern:
  "list_all (preserves P) ps \<Longrightarrow> preserves P (or_pattern ps)"
proof (induction ps)
  case Nil
  then show ?case by (simp add: preserves_def)
next
  case (Cons p ps)
  from Cons.prems have p: "preserves P p" and ps: "preserves P (or_pattern ps)"
    using Cons.IH by simp_all
  show ?case
    unfolding preserves_def
  proof (intro allI impI)
    fix v m m'
    assume a: "P m" "or_pattern (p # ps) v m = Some m'"
    show "P m'"
    proof (cases "p v m")
      case None
      with a ps show ?thesis unfolding preserves_def by auto
    next
      case (Some x)
      with a p show ?thesis unfolding preserves_def by auto
    qed
  qed
qed

lemma preserves_match_arguments:
  "list_all (preserves P) ps \<Longrightarrow> P m \<Longrightarrow> match_arguments ps args m = Some m' \<Longrightarrow> P m'"
proof (induction ps args m rule: match_arguments.induct)
  case (2 p ps a args m)
  from "2.prems"(3) obtain m1 where m1: "p a m = Some m1" "match_arguments ps args m1 = Some m'"
    by (auto split: option.splits)
  from "2.prems"(1) have p: "preserves P p" and ps: "list_all (preserves P) ps" by simp_all
  from p "2.prems"(2) m1(1) have "P m1" unfolding preserves_def by blast
  with "2.IH" [OF m1(1) ps] m1(2) show ?case by simp
qed simp_all

lemma preserves_wrap_type:
  assumes "\<And>v m n. P m \<Longrightarrow> node_at g v = Some n \<Longrightarrow> wrapped (type_info n) \<Longrightarrow> predicate v
      \<Longrightarrow> P (bind_pattern label v m)"
    and "list_all (preserves P) ps"
  shows "preserves P (wrap_type g wrapped label ps predicate)"
  unfolding preserves_def
proof (intro allI impI)
  fix v m m'
  assume P: "P m" and w: "wrap_type g wrapped label ps predicate v m = Some m'"
  from w obtain n where n: "node_at g v = Some n" "wrapped (type_info n)" "predicate v"
    by (auto simp: wrap_type_def split: option.splits if_splits)
  have b: "P (bind_pattern label v m)" using P n by (rule assms(1))
  show "P m'"
  proof (cases ps)
    case Nil
    with w n b show ?thesis by (simp add: wrap_type_def)
  next
    case (Cons p ps')
    with w n have "match_arguments ps (inputs n) (bind_pattern label v m) = Some m'"
      by (simp add: wrap_type_def)
    with assms(2) b show ?thesis by (rule preserves_match_arguments)
  qed
qed

lemma preserves_any_input:
  assumes "\<And>v m. P m \<Longrightarrow> P (bind_pattern label v m)"
  shows "preserves P (any_input g label)"
  using assms by (auto simp: preserves_def any_input_def split: option.splits)

lemma bind_other_pattern:
  assumes "single_consumer_bindings g m"
    and "label \<noteq> weights_m" and "label \<noteq> mul_const_m" and "label \<noteq> sub_const_m"
  shows "single_consumer_bindings g (bind_pattern label v m)"
  using assms by (simp add: single_consumer_bindings_def bind_pattern_def)

lemma preserves_weights_m: "preserves (single_consumer_bindings g) (match_weights_m g)"
  unfolding match_weights_m_def
  by (rule preserves_wrap_type)
    (auto simp: single_consumer_bindings_def bind_pattern_def is_Constant_def Constant_op_def)

lemma preserves_mul_const_m: "preserves (single_consumer_bindings g) (match_mul_const_m g)"
  unfolding match_mul_const_m_def
  by (rule preserves_wrap_type)
    (auto simp: single_consumer_bindings_def bind_pattern_def consumers_count_def)

lemma preserves_sub_const_m: "preserves (single_consumer_bindings g) (match_sub_const_m g)"
  unfolding match_sub_const_m_def
  by (rule preserves_wrap_type)
    (auto simp: single_consumer_bindings_def bind_pattern_def consumers_count_def)

lemma preserves_convert_m: "preserves (single_consumer_bindings g) (match_convert_m g)"
  unfolding match_convert_m_def
  by (rule preserves_wrap_type) (simp_all add: bind_other_pattern preserves_weights_m)

lemma preserves_subtract_m: "preserves (single_consumer_bindings g) (match_subtract_m g)"
  unfolding match_subtract_m_def
  by (rule preserves_wrap_type)
    (simp_all add: bind_other_pattern preserves_convert_m preserves_sub_const_m)

lemma preserves_mul_m: "preserves (single_consumer_bindings g) (match_mul_m g)"
proof -
  have "preserves (single_consumer_bindings g) (match_mul_with_sub_m g)"
    unfolding match_mul_with_sub_m_def
    by (rule preserves_wrap_type)
      (simp_all add: bind_other_pattern preserves_subtract_m preserves_mul_const_m)
  moreover have "preserves (single_consumer_bindings g) (match_mul_no_sub_m g)"
    unfolding match_mul_no_sub_m_def
    by (rule preserves_wrap_type)
      (simp_all add: bind_other_pattern preserves_convert_m preserves_mul_const_m)
  ultimately show ?thesis
    unfolding match_mul_m_def by (intro preserves_or_pattern) simp
qed

lemma preserves_reshape_m: "preserves (single_consumer_bindings g) (match_reshape_m g)"
proof -
  have "preserves (single_consumer_bindings g) (match_reshape_const_m g)"
    unfolding match_reshape_const_m_def
    by (rule preserves_wrap_type) (simp_all add: bind_other_pattern)
  then show ?thesis
    unfolding match_reshape_m_def
    by (intro preserves_wrap_type) (simp_all add: bind_other_pattern preserves_mul_m)
qed

lemma preserves_transpose_m: "preserves (single_consumer_bindings g) (match_transpose_m g)"
proof -
  have "preserves (single_consumer_bindings g) (match_transpose_const_m g)"
    unfolding match_transpose_const_m_def
    by (rule preserves_wrap_type) (simp_all add: bind_other_pattern)
  moreover have "preserves (single_consumer_bindings g) (match_transpose_input g)"
    unfolding match_transpose_input_def
    by (intro preserves_or_pattern) (simp add: preserves_reshape_m preserves_mul_m)
  ultimately show ?thesis
    unfolding match_transpose_m_def
    by (intro preserves_wrap_type) (simp_all add: bind_other_pattern)
qed

lemma preserves_fully_connected_m:
  "preserves (single_consumer_bindings g) (match_fully_connected_m g)"
proof -
  have "preserves (single_consumer_bindings g) (match_data_m g)"
    unfolding match_data_m_def
    by (rule preserves_any_input) (simp add: bind_other_pattern)
  moreover have "preserves (single_consumer_bindings g) (match_weights_input_m g)"
    unfolding match_weights_input_m_def
    by (intro preserves_or_pattern)
      (simp add: preserves_reshape_m preserves_transpose_m preserves_mul_m)
  ultimately show ?thesis
    unfolding match_fully_connected_m_def
    by (intro preserves_wrap_type) (simp_all add: bind_other_pattern)
qed

text \<open>
  C6. In the binding map of a match, the weights are a constant of element type
  \<^verbatim>\<open>u8\<close> or \<^verbatim>\<open>i8\<close> with exactly one consumer, and the scale constant and the zero-point
  constant, when bound, have exactly one consumer each. So no constant with two or more
  consumers is bound as weight, scale or zero point.
\<close>

theorem matched_constants_have_one_consumer:
  assumes "run_matcher g root = Some m"
  shows "(\<forall>w. pattern_value_map m weights_m = Some w \<longrightarrow>
            (\<exists>n. node_at g w = Some n \<and> is_Constant n \<and>
                 (out_element_type n = u8 \<or> out_element_type n = i8) \<and>
                 target_inputs_size g w = 1)) \<and>
         (\<forall>s. pattern_value_map m mul_const_m = Some s \<longrightarrow> target_inputs_size g s = 1) \<and>
         (\<forall>z. pattern_value_map m sub_const_m = Some z \<longrightarrow> target_inputs_size g z = 1)"
proof -
  have "single_consumer_bindings g empty_matcher"
    by (simp add: single_consumer_bindings_def empty_matcher_def)
  with preserves_fully_connected_m [of g] assms have "single_consumer_bindings g m"
    unfolding preserves_def run_matcher_def by blast
  then show ?thesis
    by (auto simp: single_consumer_bindings_def compressed_constant_def split: option.splits)
qed

theorem matched_constants_have_one_consumer_witness:
  "run_matcher (dequantized_graph [2, 4, 8] [2, 4, 1]) 5 = Some dequantized_match \<and>
   pattern_value_map dequantized_match weights_m = Some 1 \<and>
   pattern_value_map dequantized_match mul_const_m = Some 3 \<and>
   (\<exists>n. node_at (dequantized_graph [2, 4, 8] [2, 4, 1]) 1 = Some n \<and> is_Constant n \<and>
        (out_element_type n = u8 \<or> out_element_type n = i8)) \<and>
   target_inputs_size (dequantized_graph [2, 4, 8] [2, 4, 1]) 1 = 1 \<and>
   target_inputs_size (dequantized_graph [2, 4, 8] [2, 4, 1]) 3 = 1 \<and>
   target_inputs_size shared_scale_graph 3 = 2 \<and>
   run_matcher shared_scale_graph 5 = None"
proof -
  have b: "pattern_value_map dequantized_match weights_m = Some 1"
    "pattern_value_map dequantized_match mul_const_m = Some 3"
    by (simp_all add: dequantized_match_def)
  have s: "target_inputs_size shared_scale_graph 3 = 2"
    by (simp add: target_inputs_size_def shared_scale_graph_def dequantized_graph_def)
  from matched_constants_have_one_consumer [OF dequantized_graph_matches(1) [of "[2, 4, 1]"]] b
    dequantized_graph_matches(1) [of "[2, 4, 1]"] s shared_scale_graph_does_not_match
  show ?thesis by auto
qed

subsection \<open>The concrete scenario\<close>

text \<open>
  C9, as amended. For the matched pattern whose weight and scale constants both have
  shape \<open>[2, 4, 8]\<close>, the flag \<^verbatim>\<open>grouped\<close> is true, being computed from the scale shape.
  With no transpose the canonicalizer appends a scale and a weight constant of shape
  \<open>[2, 32]\<close>; with a transpose after the multiply it appends a scale and a weight constant
  of shape \<open>[8, 8]\<close>.
\<close>

theorem canonical_shapes_of_grouped_example:
  "run_matcher (dequantized_graph [2, 4, 8] [2, 4, 8]) 5 = Some dequantized_match \<and>
   grouped_of [2, 4, 8] \<and>
   canonicalize_operands (pattern_value_map dequantized_match)
       (pattern_value_map dequantized_match transpose_m \<noteq> None) (grouped_of [2, 4, 8])
       (pattern_value_map dequantized_match subtract_m \<noteq> None)
       (dequantized_graph [2, 4, 8] [2, 4, 8]) =
     Inr ((7, None, 8),
          dequantized_graph [2, 4, 8] [2, 4, 8] @
          [Some (constant_with_shape
                   (example_node (Constant (Host_data 1)) [] f16 [2, 4, 8] ''scale'') [2, 32]),
           Some (constant_with_shape
                   (example_node (Constant (Host_data 0)) [] u8 [2, 4, 8] ''weights'') [2, 32])]) \<and>
   run_matcher transposed_graph 7 = Some transposed_match \<and>
   canonicalize_operands (pattern_value_map transposed_match)
       (pattern_value_map transposed_match transpose_m \<noteq> None) (grouped_of [2, 4, 8])
       (pattern_value_map transposed_match subtract_m \<noteq> None) transposed_graph =
     Inr ((9, None, 10),
          transposed_graph @
          [Some (constant_with_shape
                   (example_node (Constant (Host_data 1)) [] f16 [2, 4, 8] ''scale'') [8, 8]),
           Some (constant_with_shape
                   (example_node (Constant (Host_data 0)) [] u8 [2, 4, 8] ''weights'') [8, 8])])"
proof -
  have "grouped_of [2, 4, 8]"
    by (simp add: grouped_of_def)
  moreover have "canonicalize_operands (pattern_value_map dequantized_match)
       (pattern_value_map dequantized_match transpose_m \<noteq> None) (grouped_of [2, 4, 8])
       (pattern_value_map dequantized_match subtract_m \<noteq> None)
       (dequantized_graph [2, 4, 8] [2, 4, 8]) =
     Inr ((7, None, 8),
          dequantized_graph [2, 4, 8] [2, 4, 8] @
          [Some (constant_with_shape
                   (example_node (Constant (Host_data 1)) [] f16 [2, 4, 8] ''scale'') [2, 32]),
           Some (constant_with_shape
                   (example_node (Constant (Host_data 0)) [] u8 [2, 4, 8] ''weights'') [2, 32])])"
    by code_simp
  moreover have "canonicalize_operands (pattern_value_map transposed_match)
       (pattern_value_map transposed_match transpose_m \<noteq> None) (grouped_of [2, 4, 8])
       (pattern_value_map transposed_match subtract_m \<noteq> None) transposed_graph =
     Inr ((9, None, 10),
          transposed_graph @
          [Some (constant_with_shape
                   (example_node (Constant (Host_data 1)) [] f16 [2, 4, 8] ''scale'') [8, 8]),
           Some (constant_with_shape
                   (example_node (Constant (Host_data 0)) [] u8 [2, 4, 8] ''weights'') [8, 8])])"
    by code_simp
  ultimately show ?thesis
    by (simp add: dequantized_graph_matches transposed_graph_matches)
qed

text \<open>
  The weight shape alone does not decide the canonical shape: with weights of shape
  \<open>[2, 4, 8]\<close> and a scale of shape \<open>[2, 1, 1]\<close>, and no transpose, \<^verbatim>\<open>grouped\<close> is false and the
  canonical weight shape is \<open>[8, 8]\<close>, the scale's \<open>[2, 1]\<close>.
\<close>

theorem weight_shape_does_not_make_grouped:
  "run_matcher (dequantized_graph [2, 4, 8] [2, 1, 1]) 5 = Some dequantized_match \<and>
   pattern_value_map dequantized_match transpose_m = None \<and>
   \<not> grouped_of [2, 1, 1] \<and>
   canonicalize_operands (pattern_value_map dequantized_match)
       (pattern_value_map dequantized_match transpose_m \<noteq> None) (grouped_of [2, 1, 1])
       (pattern_value_map dequantized_match subtract_m \<noteq> None)
       (dequantized_graph [2, 4, 8] [2, 1, 1]) =
     Inr ((7, None, 8),
          dequantized_graph [2, 4, 8] [2, 1, 1] @
          [Some (constant_with_shape
                   (example_node (Constant (Host_data 1)) [] f16 [2, 1, 1] ''scale'') [2, 1]),
           Some (constant_with_shape
                   (example_node (Constant (Host_data 0)) [] u8 [2, 4, 8] ''weights'') [8, 8])])"
proof -
  have "\<not> grouped_of [2, 1, 1]"
    by (simp add: grouped_of_def)
  moreover have "pattern_value_map dequantized_match transpose_m = None"
    by (simp add: dequantized_match_def)
  moreover have "canonicalize_operands (pattern_value_map dequantized_match)
       (pattern_value_map dequantized_match transpose_m \<noteq> None) (grouped_of [2, 1, 1])
       (pattern_value_map dequantized_match subtract_m \<noteq> None)
       (dequantized_graph [2, 4, 8] [2, 1, 1]) =
     Inr ((7, None, 8),
          dequantized_graph [2, 4, 8] [2, 1, 1] @
          [Some (constant_with_shape
                   (example_node (Constant (Host_data 1)) [] f16 [2, 1, 1] ''scale'') [2, 1]),
           Some (constant_with_shape
                   (example_node (Constant (Host_data 0)) [] u8 [2, 4, 8] ''weights'') [8, 8])])"
    by code_simp
  ultimately show ?thesis
    by (simp add: dequantized_graph_matches)
qed

end
